theory Spec2Isabelle
  imports Complex_Main "HOL-Library.AList"
begin

section \<open>Strings of code points\<close>

text \<open>
  A Python \<open>str\<close> is a sequence of Unicode code points. A code point is a natural
  number here and a string a list of them; ASCII literals are written through \<open>u\<close>.
\<close>

type_synonym cp = nat
type_synonym ustr = "cp list"

definition u :: "string \<Rightarrow> ustr" where
  "u s = map of_char s"

text \<open>
  The parts of the Unicode character database that \<open>re\<close> and \<open>str\<close> consult and that
  are too large to write out are a parameter of the model, together with one setting
  of the interpreter:
  \<^item> \<open>decimal_value c\<close> is the value of \<open>c\<close> as a decimal digit (general category Nd;
    what \<open>\d\<close> matches and \<open>int\<close> reads), or \<open>None\<close>;
  \<^item> \<open>is_alnum c\<close> is \<open>str.isalnum\<close>; \<open>\w\<close> is \<open>is_alnum\<close> or the underscore;
  \<^item> \<open>str_lower\<close> is \<open>str.lower\<close>;
  \<^item> \<open>max_str_digits\<close> is \<open>sys.get_int_max_str_digits()\<close>, the longest digit string
    that \<open>int\<close> converts: 4300 unless configured, 0 for no limit.
  White space (\<open>str.isspace\<close>, which \<open>str.strip\<close>, \<open>str.split\<close> and \<open>\s\<close> all use) is a
  short list and is written out.
\<close>

record unicode_db =
  decimal_value :: "cp \<Rightarrow> nat option"
  is_alnum :: "cp \<Rightarrow> bool"
  str_lower :: "ustr \<Rightarrow> ustr"
  max_str_digits :: nat

definition is_space :: "cp \<Rightarrow> bool" where
  "is_space c \<longleftrightarrow>
     (9 \<le> c \<and> c \<le> 13) \<or> (28 \<le> c \<and> c \<le> 32) \<or> c = 133 \<or> c = 160 \<or> c = 5760 \<or>
     (8192 \<le> c \<and> c \<le> 8202) \<or> c = 8232 \<or> c = 8233 \<or> c = 8239 \<or> c = 8287 \<or> c = 12288"

definition is_digit :: "unicode_db \<Rightarrow> cp \<Rightarrow> bool" where
  "is_digit db c \<longleftrightarrow> decimal_value db c \<noteq> None"

definition is_word :: "unicode_db \<Rightarrow> cp \<Rightarrow> bool" where
  "is_word db c \<longleftrightarrow> is_alnum db c \<or> c = 95"

definition is_thai_digit :: "cp \<Rightarrow> bool" where
  "is_thai_digit c \<longleftrightarrow> 3664 \<le> c \<and> c \<le> 3673"

text \<open>\<open>str.strip()\<close>: white space is removed at both ends.\<close>

definition strip :: "ustr \<Rightarrow> ustr" where
  "strip s = rev (dropWhile is_space (rev (dropWhile is_space s)))"

section \<open>normalize\_title\<close>

text \<open>
  \<open>re.sub(r"\b\d+(?:[\.-]\d+)*\.?\s*", "", text)\<close>. The matcher is followed as a
  cursor: the character before the position (none at the start of the text) and the
  text from the position on. Every part of the pattern after \<open>\b\d\<close> is greedy and
  optional, so the match found at a position is the greedy one: the whole digit run,
  then as many groups of a dot or hyphen and a digit run as there are, then a dot if
  there is one, then the white space.
\<close>

type_synonym cursor = "cp option \<times> ustr"

fun eat_while :: "(cp \<Rightarrow> bool) \<Rightarrow> cursor \<Rightarrow> cursor" where
  "eat_while P (prev, []) = (prev, [])"
| "eat_while P (prev, c # s) = (if P c then eat_while P (Some c, s) else (prev, c # s))"

lemma length_eat_while: "length (snd (eat_while P cur)) \<le> length (snd cur)"
  by (induction P cur rule: eat_while.induct) (auto simp: le_SucI)

text \<open>The starred group \<open>(?:[\.-]\d+)*\<close>: a separator that no digit follows is given back.\<close>

function eat_groups :: "unicode_db \<Rightarrow> cursor \<Rightarrow> cursor" where
  "eat_groups db (prev, []) = (prev, [])"
| "eat_groups db (prev, [c]) = (prev, [c])"
| "eat_groups db (prev, c # d # s) =
     (if (c = 46 \<or> c = 45) \<and> is_digit db d
      then eat_groups db (eat_while (is_digit db) (Some d, s))
      else (prev, c # d # s))"
  by pat_completeness auto
termination
proof (relation "measure (\<lambda>(db, cur). length (snd cur))", goal_cases)
  case 1 show ?case by simp
next
  case (2 db prev c d s)
  have "length (snd (eat_while (is_digit db) (Some d, s))) \<le> length s"
    using length_eat_while[of "is_digit db" "(Some d, s)"] by simp
  then show ?case by simp
qed

definition eat_dot :: "cursor \<Rightarrow> cursor" where
  "eat_dot cur =
     (case cur of (prev, []) \<Rightarrow> cur | (prev, c # s) \<Rightarrow> if c = 46 then (Some c, s) else cur)"

text \<open>Where a match ends that starts at the cursor, which stands at a digit.\<close>

definition num_match_end :: "unicode_db \<Rightarrow> cursor \<Rightarrow> cursor" where
  "num_match_end db cur =
     eat_while is_space (eat_dot (eat_groups db (eat_while (is_digit db) cur)))"

text \<open>\<open>\b\<close> between the character before a position (none at the start) and the one at it.\<close>

definition word_boundary :: "unicode_db \<Rightarrow> cp option \<Rightarrow> cp \<Rightarrow> bool" where
  "word_boundary db prev c \<longleftrightarrow>
     (case prev of None \<Rightarrow> False | Some p \<Rightarrow> is_word db p) \<noteq> is_word db c"

lemma length_eat_groups: "length (snd (eat_groups db cur)) \<le> length (snd cur)"
proof (induction db cur rule: eat_groups.induct)
  case (3 db prev c d s)
  have "length (snd (eat_while (is_digit db) (Some d, s))) \<le> length s"
    using length_eat_while[of "is_digit db" "(Some d, s)"] by simp
  with 3 show ?case by (auto simp: le_SucI)
qed simp_all

lemma length_eat_dot: "length (snd (eat_dot cur)) \<le> length (snd cur)"
  by (auto simp: eat_dot_def split: prod.splits list.splits)

lemma length_num_match_end: "length (snd (num_match_end db cur)) \<le> length (snd cur)"
proof -
  have "length (snd (num_match_end db cur))
        \<le> length (snd (eat_dot (eat_groups db (eat_while (is_digit db) cur))))"
    unfolding num_match_end_def by (rule length_eat_while)
  also have "\<dots> \<le> length (snd (eat_groups db (eat_while (is_digit db) cur)))"
    by (rule length_eat_dot)
  also have "\<dots> \<le> length (snd (eat_while (is_digit db) cur))"
    by (rule length_eat_groups)
  also have "\<dots> \<le> length (snd cur)"
    by (rule length_eat_while)
  finally show ?thesis .
qed

text \<open>
  The substitution scans from the left. At a digit on a word boundary the match is
  removed and the scan goes on behind it, where the character before the position is
  the last one matched; any other character is kept.
\<close>

function sub_numbers :: "unicode_db \<Rightarrow> cursor \<Rightarrow> ustr" where
  "sub_numbers db (prev, []) = []"
| "sub_numbers db (prev, c # s) =
     (if is_digit db c \<and> word_boundary db prev c
      then sub_numbers db (num_match_end db (Some c, s))
      else c # sub_numbers db (Some c, s))"
  by pat_completeness auto
termination
proof (relation "measure (\<lambda>(db, cur). length (snd cur))", goal_cases)
  case 1 show ?case by simp
next
  case (2 db prev c s)
  have "length (snd (num_match_end db (Some c, s))) \<le> length s"
    using length_num_match_end[of db "(Some c, s)"] by simp
  then show ?case by simp
next
  case (3 db prev c s)
  show ?case by simp
qed

definition is_punct :: "cp \<Rightarrow> bool" where
  "is_punct c \<longleftrightarrow> c \<in> {45, 8211, 8212, 8226, 183, 40, 41, 91, 93, 123, 125, 58, 59, 44, 46}"

text \<open>\<open>re.sub(r"\s+", " ", text)\<close>\<close>

function collapse_ws :: "ustr \<Rightarrow> ustr" where
  "collapse_ws [] = []"
| "collapse_ws (c # s) =
     (if is_space c then 32 # collapse_ws (dropWhile is_space s) else c # collapse_ws s)"
  by pat_completeness auto
termination
  by (relation "measure length") (auto simp: length_dropWhile_le le_imp_less_Suc)

definition normalize_title :: "unicode_db \<Rightarrow> ustr \<Rightarrow> ustr" where
  "normalize_title db text =
     (let t1 = strip text;
          t2 = str_lower db t1;
          t3 = sub_numbers db (None, t2);
          t4 = filter (\<lambda>c. \<not> is_thai_digit c) t3;
          t5 = map (\<lambda>c. if is_punct c then 32 else c) t4;
          t6 = collapse_ws t5
      in strip t6)"

text \<open>The guard \<open>if text is None: return ""\<close>, for a caller that passes no string.\<close>

definition normalize_title_opt :: "unicode_db \<Rightarrow> ustr option \<Rightarrow> ustr" where
  "normalize_title_opt db text = (case text of None \<Rightarrow> [] | Some t \<Rightarrow> normalize_title db t)"

section \<open>Heading detection\<close>

text \<open>
  \<open>raw.translate(str.maketrans("...", "0123456789"))\<close>: the ten Thai digits
  U+0E50 .. U+0E59 become the ASCII digits.
\<close>

definition thai_to_arabic :: "ustr \<Rightarrow> ustr" where
  "thai_to_arabic s = map (\<lambda>c. if is_thai_digit c then c - 3664 + 48 else c) s"

text \<open>The chapter keyword (U+0E1A U+0E17 U+0E17 U+0E35 U+0E48) and the localized
  heading style word (U+0E2B U+0E31 U+0E27 U+0E40 U+0E23 U+0E37 U+0E48 U+0E2D U+0E07).\<close>

definition chapter_marker :: ustr where
  "chapter_marker = [3610, 3607, 3607, 3637, 3656]"

definition thai_heading_word :: ustr where
  "thai_heading_word = [3627, 3633, 3623, 3648, 3619, 3639, 3656, 3629, 3591]"

definition starts_with :: "ustr \<Rightarrow> ustr \<Rightarrow> bool" where
  "starts_with s p \<longleftrightarrow> take (length p) s = p"

text \<open>\<open>re.match(r"^(chapter)\s*\d+", s)\<close>: the keyword, any white space, a digit.\<close>

definition match_chapter :: "unicode_db \<Rightarrow> ustr \<Rightarrow> bool" where
  "match_chapter db s \<longleftrightarrow>
     starts_with s chapter_marker \<and>
     (case dropWhile is_space (drop (length chapter_marker) s) of
        [] \<Rightarrow> False | c # r \<Rightarrow> is_digit db c)"

text \<open>
  \<open>re.match(r"^(\d+)(?:\.(\d+))*[\.)\s]", s)\<close>. The engine backtracks, so the pattern
  matches when some way through it does: \<open>match_digits\<close> stands behind a digit of a
  \<open>\d+\<close> (another digit, or on to the groups), \<open>match_groups\<close> stands before the
  starred group (one more group, or the closing character).
\<close>

fun match_digits :: "unicode_db \<Rightarrow> ustr \<Rightarrow> bool"
  and match_groups :: "unicode_db \<Rightarrow> ustr \<Rightarrow> bool" where
  "match_digits db [] = match_groups db []"
| "match_digits db (c # s) = ((is_digit db c \<and> match_digits db s) \<or> match_groups db (c # s))"
| "match_groups db [] = False"
| "match_groups db (c # s) =
     ((c = 46 \<and> (case s of [] \<Rightarrow> False | d # r \<Rightarrow> is_digit db d \<and> match_digits db r))
      \<or> c = 46 \<or> c = 41 \<or> is_space c)"

definition match_numbered :: "unicode_db \<Rightarrow> ustr \<Rightarrow> bool" where
  "match_numbered db s \<longleftrightarrow>
     (case s of [] \<Rightarrow> False | c # r \<Rightarrow> is_digit db c \<and> match_digits db r)"

text \<open>\<open>s.split()[0]\<close>: the first run of characters that are not white space;
  an \<open>IndexError\<close> (\<open>None\<close> here) when there is none.\<close>

definition first_token :: "ustr \<Rightarrow> ustr option" where
  "first_token s =
     (case dropWhile is_space s of [] \<Rightarrow> None
      | c # r \<Rightarrow> Some (takeWhile (\<lambda>x. \<not> is_space x) (c # r)))"

text \<open>\<open>len(re.findall(r"\d+", s))\<close>: the number of maximal digit runs.\<close>

function count_digit_runs :: "unicode_db \<Rightarrow> ustr \<Rightarrow> nat" where
  "count_digit_runs db [] = 0"
| "count_digit_runs db (c # s) =
     (if is_digit db c then Suc (count_digit_runs db (dropWhile (is_digit db) s))
      else count_digit_runs db s)"
  by pat_completeness auto
termination
  by (relation "measure (\<lambda>(db, s). length s)") (auto simp: length_dropWhile_le le_imp_less_Suc)

text \<open>
  The exceptions a run can end with, each with its message but \<open>IndexError\<close>:
  \<open>IndexError\<close> from a subscript out of range; \<open>FileNotFoundError\<close>, which
  \<open>merge_chapter\<close> raises itself and which the library raises too (for a directory
  without a package in it, for a target in a directory that does not exist);
  \<open>IsADirectoryError\<close>; \<open>PackageNotFoundError\<close> of the document library for a file that
  is no package; \<open>OSError\<close> for every other failure of the operating system.
\<close>

datatype py_error =
  IndexError
  | FileNotFoundError ustr
  | IsADirectoryError ustr
  | PackageNotFoundError ustr
  | OSError ustr

text \<open>
  \<open>_heading_level_from_text\<close>. The result is \<open>Inr None\<close> for "not a heading";
  \<open>Inl IndexError\<close> is what \<open>raw_norm.split()[0]\<close> raises on a text without a token.
\<close>

definition heading_level_from_text :: "unicode_db \<Rightarrow> ustr \<Rightarrow> py_error + nat option" where
  "heading_level_from_text db text =
     (if text = [] then Inr None
      else let raw = strip text; raw_norm = thai_to_arabic raw
           in if match_chapter db raw_norm then Inr (Some 1)
              else if match_numbered db raw_norm
                   then (case first_token raw_norm of
                           None \<Rightarrow> Inl IndexError
                         | Some tok \<Rightarrow>
                             (let parts = count_digit_runs db tok
                              in if parts \<noteq> 0 then Inr (Some (max 1 parts)) else Inr None))
                   else Inr None)"

text \<open>
  \<open>int(digits)\<close> on a string of decimal digits; \<open>None\<close> is the \<open>ValueError\<close>. It is
  raised for a string that is empty or holds another character (the source passes
  digit runs only), and for a string of more digits than the interpreter converts:
  more than 640 and more than \<open>max_str_digits\<close>, when that is not 0.
\<close>

definition within_digit_limit :: "unicode_db \<Rightarrow> ustr \<Rightarrow> bool" where
  "within_digit_limit db ds \<longleftrightarrow>
     max_str_digits db = 0 \<or> length ds \<le> 640 \<or> length ds \<le> max_str_digits db"

definition py_int :: "unicode_db \<Rightarrow> ustr \<Rightarrow> nat option" where
  "py_int db ds =
     (if ds = [] \<or> \<not> list_all (is_digit db) ds then None
      else if \<not> within_digit_limit db ds then None
      else Some (foldl (\<lambda>n c. 10 * n + (case decimal_value db c of Some d \<Rightarrow> d | None \<Rightarrow> 0)) 0 ds))"

text \<open>
  \<open>re.search(r"(\d+)$", s)\<close>: the leftmost digit run that reaches the end of the
  string, where \<open>$\<close> also stands before a newline that ends the string. The result is
  group 1, empty when there is no match.
\<close>

definition trailing_digits :: "unicode_db \<Rightarrow> ustr \<Rightarrow> ustr" where
  "trailing_digits db s =
     (let body = (if s \<noteq> [] \<and> last s = 10 then butlast s else s)
      in rev (takeWhile (is_digit db) (rev body)))"

text \<open>\<open>re.search(r"(\d+)", s)\<close>: the first maximal digit run, empty when there is none.\<close>

definition first_digits :: "unicode_db \<Rightarrow> ustr \<Rightarrow> ustr" where
  "first_digits db s = takeWhile (is_digit db) (dropWhile (\<lambda>c. \<not> is_digit db c) s)"

text \<open>\<open>needle in s\<close>\<close>

fun contains :: "ustr \<Rightarrow> ustr \<Rightarrow> bool" where
  "contains [] needle = (needle = [])"
| "contains (c # s) needle = (starts_with (c # s) needle \<or> contains s needle)"

record run =
  run_text :: ustr
  bold :: "bool option"
  italic :: "bool option"
  underline :: "bool option"
  font_name :: "ustr option"
  font_size :: "nat option"

record docx_paragraph =
  p_style :: "ustr option"
  p_text :: ustr
  p_runs :: "run list"

definition get_heading_level :: "unicode_db \<Rightarrow> docx_paragraph \<Rightarrow> py_error + nat option" where
  "get_heading_level db p =
     (let style_name = (case p_style p of None \<Rightarrow> [] | Some n \<Rightarrow> n);
          m = trailing_digits db style_name
      in if starts_with style_name (u ''Heading'') \<and> m \<noteq> []
         then Inr (py_int db m)
         else let m2 = first_digits db style_name
              in if contains style_name thai_heading_word \<and> m2 \<noteq> []
                 then Inr (py_int db m2)
                 else heading_level_from_text db (p_text p))"

section \<open>Sections and the title index\<close>

record doc_section =
  title :: ustr
  norm_title :: ustr
  level :: nat
  paragraphs :: "docx_paragraph list"

text \<open>
  \<open>parse_sections\<close>: \<open>current\<close> is the section appended last, so adding a paragraph
  to it changes the last element of \<open>sections\<close>; before the first heading there is none.
\<close>

fun parse_loop ::
  "unicode_db \<Rightarrow> docx_paragraph list \<Rightarrow> doc_section list \<Rightarrow> py_error + doc_section list" where
  "parse_loop db [] sections = Inr sections"
| "parse_loop db (p # ps) sections =
     (case get_heading_level db p of
        Inl e \<Rightarrow> Inl e
      | Inr (Some lvl) \<Rightarrow>
          parse_loop db ps
            (sections @ [\<lparr>title = strip (p_text p), norm_title = normalize_title db (p_text p),
                          level = lvl, paragraphs = []\<rparr>])
      | Inr None \<Rightarrow>
          (if sections = [] then parse_loop db ps sections
           else parse_loop db ps
                  (butlast sections @
                   [(last sections)\<lparr>paragraphs := paragraphs (last sections) @ [p]\<rparr>])))"

definition parse_sections :: "unicode_db \<Rightarrow> docx_paragraph list \<Rightarrow> py_error + doc_section list" where
  "parse_sections db doc = parse_loop db doc []"

text \<open>
  A \<open>dict\<close> keeps its keys in insertion order and a store under a key it already has
  replaces the value in place: an association list under \<open>AList.update\<close>.
\<close>

type_synonym title_index = "(ustr \<times> nat) list"

fun index_loop :: "nat \<Rightarrow> doc_section list \<Rightarrow> title_index \<Rightarrow> title_index" where
  "index_loop i [] index = index"
| "index_loop i (sec # secs) index =
     (let key = norm_title sec
      in if key \<noteq> [] then index_loop (Suc i) secs (AList.update key i index)
         else index_loop (Suc i) secs index)"

definition build_title_index :: "doc_section list \<Rightarrow> title_index" where
  "build_title_index sections = index_loop 0 sections []"

section \<open>The similarity ratio of difflib\<close>

text \<open>
  \<open>SequenceMatcher(a=a, b=b).ratio()\<close> with no junk predicate. A character of \<open>b\<close> is
  popular when \<open>b\<close> has 200 characters or more and the character fills more than
  \<open>len(b) // 100 + 1\<close> places; popular characters are left out of \<open>b2j\<close>.
\<close>

definition popular :: "ustr \<Rightarrow> cp \<Rightarrow> bool" where
  "popular b c \<longleftrightarrow> 200 \<le> length b \<and> length b div 100 + 1 < count_list b c"

definition b2j_get :: "ustr \<Rightarrow> cp \<Rightarrow> nat list" where
  "b2j_get b c = (if popular b c then [] else filter (\<lambda>j. b ! j = c) [0..<length b])"

type_synonym block = "nat \<times> nat \<times> nat"
type_synonym j2len = "(nat \<times> nat) list"

text \<open>\<open>j2len.get(j - 1, 0)\<close>\<close>

definition j2len_get :: "j2len \<Rightarrow> nat \<Rightarrow> nat" where
  "j2len_get m j = (if j = 0 then 0 else case map_of m (j - 1) of None \<Rightarrow> 0 | Some k \<Rightarrow> k)"

text \<open>The body of the inner loop of \<open>find_longest_match\<close>, at row \<open>i\<close> and column \<open>j\<close>.\<close>

definition row_step :: "nat \<Rightarrow> j2len \<Rightarrow> j2len \<times> block \<Rightarrow> nat \<Rightarrow> j2len \<times> block" where
  "row_step i m st j =
     (case st of (newm, (besti, bestj, bestsize)) \<Rightarrow>
        (let k = j2len_get m j + 1
         in ((j, k) # newm,
             if bestsize < k then (i + 1 - k, j + 1 - k, k) else (besti, bestj, bestsize))))"

text \<open>One pass of the outer loop: the columns of \<open>b2j\<close> within \<open>blo \<le> j < bhi\<close>, ascending.\<close>

definition scan_row :: "ustr \<Rightarrow> ustr \<Rightarrow> nat \<Rightarrow> nat \<Rightarrow> j2len \<times> block \<Rightarrow> nat \<Rightarrow> j2len \<times> block" where
  "scan_row a b blo bhi st i =
     (case st of (m, best) \<Rightarrow>
        foldl (row_step i m) ([], best) (filter (\<lambda>j. blo \<le> j \<and> j < bhi) (b2j_get b (a ! i))))"

definition longest_junk_free :: "ustr \<Rightarrow> ustr \<Rightarrow> nat \<Rightarrow> nat \<Rightarrow> nat \<Rightarrow> nat \<Rightarrow> block" where
  "longest_junk_free a b alo ahi blo bhi =
     snd (foldl (scan_row a b blo bhi) ([], (alo, blo, 0)) [alo..<ahi])"

text \<open>
  The two loops that extend the best block over equal characters. With no junk
  predicate \<open>bjunk\<close> is empty: the test \<open>not isbjunk(...)\<close> holds, and the second pair
  of loops, which extends over junk only, never runs.
\<close>

function extend_back :: "ustr \<Rightarrow> ustr \<Rightarrow> nat \<Rightarrow> nat \<Rightarrow> block \<Rightarrow> block" where
  "extend_back a b alo blo (besti, bestj, bestsize) =
     (if alo < besti \<and> blo < bestj \<and> a ! (besti - 1) = b ! (bestj - 1)
      then extend_back a b alo blo (besti - 1, bestj - 1, bestsize + 1)
      else (besti, bestj, bestsize))"
  by pat_completeness auto
termination
  by (relation "measure (\<lambda>(a, b, alo, blo, besti, bestj, bestsize). besti)") auto

declare extend_back.simps [simp del]

function extend_fwd :: "ustr \<Rightarrow> ustr \<Rightarrow> nat \<Rightarrow> nat \<Rightarrow> block \<Rightarrow> block" where
  "extend_fwd a b ahi bhi (besti, bestj, bestsize) =
     (if besti + bestsize < ahi \<and> bestj + bestsize < bhi \<and>
         a ! (besti + bestsize) = b ! (bestj + bestsize)
      then extend_fwd a b ahi bhi (besti, bestj, bestsize + 1)
      else (besti, bestj, bestsize))"
  by pat_completeness auto
termination
  by (relation "measure (\<lambda>(a, b, ahi, bhi, besti, bestj, bestsize). ahi - (besti + bestsize))") auto

declare extend_fwd.simps [simp del]

definition find_longest_match :: "ustr \<Rightarrow> ustr \<Rightarrow> nat \<Rightarrow> nat \<Rightarrow> nat \<Rightarrow> nat \<Rightarrow> block" where
  "find_longest_match a b alo ahi blo bhi =
     extend_fwd a b ahi bhi (extend_back a b alo blo (longest_junk_free a b alo ahi blo bhi))"

text \<open>
  The block found lies inside \<open>a[alo:ahi]\<close>; the recursion over the pieces left and
  right of it terminates by that.
\<close>

definition a_ok :: "nat \<Rightarrow> nat \<Rightarrow> block \<Rightarrow> bool" where
  "a_ok alo ahi blk \<longleftrightarrow> (case blk of (i, j, k) \<Rightarrow> alo \<le> i \<and> i + k \<le> ahi)"

lemma j2len_get_bound:
  assumes "\<forall>(j, k) \<in> set m. k \<le> n"
  shows "j2len_get m j \<le> n"
proof (cases "j = 0")
  case True then show ?thesis by (simp add: j2len_get_def)
next
  case False
  show ?thesis
  proof (cases "map_of m (j - 1)")
    case None with False show ?thesis by (simp add: j2len_get_def)
  next
    case (Some k)
    then have "(j - 1, k) \<in> set m" by (rule map_of_SomeD)
    with assms have "k \<le> n" by auto
    with False Some show ?thesis by (simp add: j2len_get_def)
  qed
qed

lemma row_fold_ok:
  assumes m: "\<forall>(j, k) \<in> set m. k + alo \<le> i" and i: "alo \<le> i" "i < ahi"
  shows "(\<forall>(j, k) \<in> set (fst st). k + alo \<le> Suc i) \<and> a_ok alo ahi (snd st)
         \<Longrightarrow> (\<forall>(j, k) \<in> set (fst (foldl (row_step i m) st js)). k + alo \<le> Suc i)
             \<and> a_ok alo ahi (snd (foldl (row_step i m) st js))"
proof (induction js arbitrary: st)
  case Nil then show ?case by simp
next
  case (Cons j js)
  obtain newm bi bj bk where st: "st = (newm, (bi, bj, bk))" by (cases st) auto
  from m have "\<forall>(j, k) \<in> set m. k \<le> i - alo" using i by auto
  then have g: "j2len_get m j \<le> i - alo" by (rule j2len_get_bound)
  have "(\<forall>(j, k) \<in> set (fst (row_step i m st j)). k + alo \<le> Suc i) \<and> a_ok alo ahi (snd (row_step i m st j))"
    using Cons.prems g i unfolding st by (auto simp: row_step_def Let_def a_ok_def)
  then show ?case using Cons.IH by simp
qed

lemma scan_row_ok:
  assumes "\<forall>(j, k) \<in> set (fst st). k + alo \<le> i" "a_ok alo ahi (snd st)" "alo \<le> i" "i < ahi"
  shows "(\<forall>(j, k) \<in> set (fst (scan_row a b blo bhi st i)). k + alo \<le> Suc i)
         \<and> a_ok alo ahi (snd (scan_row a b blo bhi st i))"
proof -
  obtain m best where st: "st = (m, best)" by (cases st) auto
  have "(\<forall>(j, k) \<in> set (fst (foldl (row_step i m) ([], best) js)). k + alo \<le> Suc i)
        \<and> a_ok alo ahi (snd (foldl (row_step i m) ([], best) js))" for js
    by (rule row_fold_ok) (use assms st in auto)
  then show ?thesis by (simp add: scan_row_def st)
qed

lemma scan_rows_ok:
  assumes "alo \<le> n" "n \<le> ahi"
  shows "(\<forall>(j, k) \<in> set (fst (foldl (scan_row a b blo bhi) ([], (alo, blo, 0)) [alo..<n])). k + alo \<le> n)
         \<and> a_ok alo ahi (snd (foldl (scan_row a b blo bhi) ([], (alo, blo, 0)) [alo..<n]))"
  using assms
proof (induction n)
  case 0 then show ?case by (simp add: a_ok_def)
next
  case (Suc n)
  show ?case
  proof (cases "alo = Suc n")
    case True then show ?thesis using Suc.prems by (simp add: a_ok_def)
  next
    case False
    with Suc.prems have le: "alo \<le> n" "n \<le> ahi" "n < ahi" by auto
    from Suc.IH[OF le(1,2)] le show ?thesis
      using scan_row_ok[of "foldl (scan_row a b blo bhi) ([], (alo, blo, 0)) [alo..<n]" alo n ahi a b blo bhi]
      by simp
  qed
qed

lemma longest_junk_free_ok:
  "a_ok alo ahi (longest_junk_free a b alo ahi blo bhi) \<or> (ahi < alo \<and> longest_junk_free a b alo ahi blo bhi = (alo, blo, 0))"
proof (cases "alo \<le> ahi")
  case True
  then show ?thesis using scan_rows_ok[of alo ahi ahi a b blo bhi] by (simp add: longest_junk_free_def)
next
  case False then show ?thesis by (simp add: longest_junk_free_def)
qed

lemma extend_back_ok: "a_ok alo ahi blk \<Longrightarrow> a_ok alo ahi (extend_back a b alo blo blk)"
proof (induction a b alo blo blk rule: extend_back.induct)
  case (1 a b alo blo besti bestj bestsize)
  then show ?case by (subst extend_back.simps) (auto simp: a_ok_def)
qed

lemma extend_fwd_ok: "a_ok alo ahi blk \<Longrightarrow> a_ok alo ahi (extend_fwd a b ahi bhi blk)"
proof (induction a b ahi bhi blk rule: extend_fwd.induct)
  case (1 a b ahi bhi besti bestj bestsize)
  then show ?case by (subst extend_fwd.simps) (auto simp: a_ok_def)
qed

lemma find_longest_match_ok:
  "find_longest_match a b alo ahi blo bhi = (i, j, k) \<Longrightarrow> k \<noteq> 0 \<Longrightarrow> alo \<le> i \<and> i + k \<le> ahi"
proof -
  assume r: "find_longest_match a b alo ahi blo bhi = (i, j, k)" and k: "k \<noteq> 0"
  show ?thesis
  proof (cases "alo \<le> ahi")
    case True
    with longest_junk_free_ok[of alo ahi a b blo bhi] have "a_ok alo ahi (longest_junk_free a b alo ahi blo bhi)" by auto
    then have "a_ok alo ahi (find_longest_match a b alo ahi blo bhi)"
      unfolding find_longest_match_def by (intro extend_fwd_ok extend_back_ok)
    with r show ?thesis by (simp add: a_ok_def)
  next
    case False
    then have "longest_junk_free a b alo ahi blo bhi = (alo, blo, 0)" by (simp add: longest_junk_free_def)
    then have "find_longest_match a b alo ahi blo bhi = (alo, blo, 0)" using False
      by (simp add: find_longest_match_def extend_back.simps extend_fwd.simps)
    with r k show ?thesis by simp
  qed
qed


text \<open>
  \<open>get_matching_blocks\<close> keeps a stack of ranges still to search; each range is
  searched on its own, so the blocks are those of the recursion below (the source then
  sorts them, merges adjacent ones and appends an empty sentinel, which leaves the sum
  of the sizes as it is).
\<close>

function matching_blocks :: "ustr \<Rightarrow> ustr \<Rightarrow> nat \<Rightarrow> nat \<Rightarrow> nat \<Rightarrow> nat \<Rightarrow> block list" where
  "matching_blocks a b alo ahi blo bhi =
     (case find_longest_match a b alo ahi blo bhi of
        (i, j, k) \<Rightarrow>
          if k = 0 then []
          else (if alo < i \<and> blo < j then matching_blocks a b alo i blo j else []) @
               [(i, j, k)] @
               (if i + k < ahi \<and> j + k < bhi then matching_blocks a b (i + k) ahi (j + k) bhi
                else []))"
  by pat_completeness auto
termination
proof (relation "measure (\<lambda>(a, b, alo, ahi, blo, bhi). ahi - alo)", goal_cases)
  case 1 show ?case by simp
next
  case (2 a b alo ahi blo bhi i y j k)
  then have "find_longest_match a b alo ahi blo bhi = (i, j, k)" by simp
  from find_longest_match_ok[OF this] 2 show ?case by auto
next
  case (3 a b alo ahi blo bhi i y j k)
  then have "find_longest_match a b alo ahi blo bhi = (i, j, k)" by simp
  from find_longest_match_ok[OF this] 3 show ?case by auto
qed

declare matching_blocks.simps [simp del]

text \<open>
  \<open>ratio()\<close> is \<open>2.0 * matches / length\<close>, and \<open>1.0\<close> for two empty strings. The model
  keeps the exact quotient; the source rounds it to a double. Rounding is monotone
  and \<open>0.6\<close> is the double nearest to \<open>3/5\<close>, so the comparisons of the source and of
  the model agree as long as the titles are shorter than some 10^7 characters
  (two different quotients of denominators below 2^26 round to different doubles).
\<close>

definition ratio :: "ustr \<Rightarrow> ustr \<Rightarrow> rat" where
  "ratio a b =
     (let matches = sum_list (map (\<lambda>(i, j, k). k) (matching_blocks a b 0 (length a) 0 (length b)));
          len = length a + length b
      in if len \<noteq> 0 then 2 * of_nat matches / of_nat len else 1)"

section \<open>find\_best\_match\<close>

text \<open>The loop over \<open>source_index.items()\<close>; the state is \<open>(best_idx, best_score)\<close>.\<close>

fun fuzzy_loop :: "ustr \<Rightarrow> title_index \<Rightarrow> nat option \<times> rat \<Rightarrow> nat option \<times> rat" where
  "fuzzy_loop t_key [] best = best"
| "fuzzy_loop t_key ((s_key, s_idx) # rest) (best_idx, best_score) =
     (let score = ratio t_key s_key
      in if best_score < score then fuzzy_loop t_key rest (Some s_idx, score)
         else fuzzy_loop t_key rest (best_idx, best_score))"

definition find_best_match :: "unicode_db \<Rightarrow> ustr \<Rightarrow> title_index \<Rightarrow> nat option" where
  "find_best_match db template_title source_index =
     (let t_key = normalize_title db template_title
      in case map_of source_index t_key of
           Some i \<Rightarrow> Some i
         | None \<Rightarrow>
             (case fuzzy_loop t_key source_index (None, 0) of
                (best_idx, best_score) \<Rightarrow> if 6 / 10 \<le> best_score then best_idx else None))"

section \<open>The document library and the file system\<close>

text \<open>
  The third-party document library is not part of the repository. What the merge
  relies on is a parameter: whether \<open>add_heading(text, level)\<close> returns for a level
  (the source catches its exception), and whether \<open>out_doc.styles[name]\<close> resolves to
  a style that a paragraph takes (the source catches the exception of the lookup and
  of the assignment).
\<close>

record docx_lib =
  heading_accepted :: "nat \<Rightarrow> bool"
  has_style :: "ustr \<Rightarrow> bool"

text \<open>The decimal digits of a level, as the f-string \<open>f"Heading {level}"\<close> writes them.\<close>

function str_of_nat :: "nat \<Rightarrow> ustr" where
  "str_of_nat n = (if n < 10 then [48 + n] else str_of_nat (n div 10) @ [48 + n mod 10])"
  by pat_completeness auto
termination
  by (relation "measure id") auto

declare str_of_nat.simps [simp del]

definition plain_run :: "ustr \<Rightarrow> run" where
  "plain_run t = \<lparr>run_text = t, bold = None, italic = None, underline = None,
                  font_name = None, font_size = None\<rparr>"

text \<open>The style a heading of a level carries: \<open>Title\<close> at level 0, \<open>Heading N\<close> otherwise.\<close>

definition heading_style :: "nat \<Rightarrow> ustr" where
  "heading_style lvl = (if lvl = 0 then u ''Title'' else u ''Heading '' @ str_of_nat lvl)"

text \<open>\<open>add_heading(text, level)\<close> where it returns: a paragraph of the heading style
  with the text as its run.\<close>

definition add_heading :: "ustr \<Rightarrow> nat \<Rightarrow> docx_paragraph" where
  "add_heading t lvl =
     \<lparr>p_style = Some (heading_style lvl), p_text = t,
      p_runs = (if t \<noteq> [] then [plain_run t] else [])\<rparr>"

text \<open>\<open>add_paragraph_with_style\<close>: a style that does not resolve is dropped silently.\<close>

definition add_paragraph_with_style :: "docx_lib \<Rightarrow> ustr \<Rightarrow> ustr option \<Rightarrow> docx_paragraph" where
  "add_paragraph_with_style lib t style_name =
     \<lparr>p_style = (case style_name of None \<Rightarrow> None
                  | Some n \<Rightarrow> if n \<noteq> [] \<and> has_style lib n then Some n else None),
      p_text = t,
      p_runs = (if t \<noteq> [] then [plain_run t] else [])\<rparr>"

text \<open>The heading of a template section: \<open>add_heading\<close>, and on its exception the
  fallback paragraph of style name \<open>f"Heading {level}"\<close>.\<close>

definition emit_heading :: "docx_lib \<Rightarrow> ustr \<Rightarrow> nat \<Rightarrow> docx_paragraph" where
  "emit_heading lib heading_text lvl =
     (if heading_accepted lib lvl then add_heading heading_text lvl
      else add_paragraph_with_style lib heading_text (Some (u ''Heading '' @ str_of_nat lvl)))"

text \<open>\<open>copy_run_formatting\<close>, with every assignment of its \<open>try\<close> block going through.\<close>

definition copy_run_formatting :: "run \<Rightarrow> run \<Rightarrow> run" where
  "copy_run_formatting src_run dst_run =
     dst_run\<lparr>bold := bold src_run, italic := italic src_run, underline := underline src_run,
             font_name := font_name src_run, font_size := font_size src_run\<rparr>"

text \<open>The copy of one body paragraph of the matched source section.\<close>

definition copy_paragraph :: "docx_lib \<Rightarrow> docx_paragraph \<Rightarrow> docx_paragraph" where
  "copy_paragraph lib sp =
     (let new_runs = (if p_runs sp \<noteq> []
                      then map (\<lambda>r. copy_run_formatting r (plain_run (run_text r))) (p_runs sp)
                      else [plain_run (p_text sp)])
      in \<lparr>p_style = (case p_style sp of None \<Rightarrow> None
                      | Some n \<Rightarrow> if n \<noteq> [] \<and> has_style lib n then Some n else None),
          p_text = concat (map run_text new_runs),
          p_runs = new_runs\<rparr>)"

section \<open>merge\_chapter\<close>

text \<open>The state of the loop over the template sections: the output document and
  the two counters \<open>matched\<close> and \<open>skipped\<close>.\<close>

type_synonym merge_state = "docx_paragraph list \<times> nat \<times> nat"

definition merge_step ::
  "unicode_db \<Rightarrow> docx_lib \<Rightarrow> doc_section list \<Rightarrow> title_index \<Rightarrow> doc_section \<Rightarrow> merge_state
   \<Rightarrow> py_error + merge_state" where
  "merge_step db lib source_sections source_index t_sec st =
     (case st of (out_doc, matched, skipped) \<Rightarrow>
        (let heading_text = title t_sec;
             out1 = out_doc @ [emit_heading lib heading_text (level t_sec)]
         in case find_best_match db heading_text source_index of
              None \<Rightarrow> Inr (out1, matched, skipped + 1)
            | Some s_idx \<Rightarrow>
                if s_idx < length source_sections
                then Inr (out1 @ map (copy_paragraph lib) (paragraphs (source_sections ! s_idx)),
                          matched + 1, skipped)
                else Inl IndexError))"

fun merge_loop ::
  "unicode_db \<Rightarrow> docx_lib \<Rightarrow> doc_section list \<Rightarrow> title_index \<Rightarrow> doc_section list \<Rightarrow> merge_state
   \<Rightarrow> py_error + merge_state" where
  "merge_loop db lib source_sections source_index [] st = Inr st"
| "merge_loop db lib source_sections source_index (t_sec # ts) st =
     (case merge_step db lib source_sections source_index t_sec st of
        Inl e \<Rightarrow> Inl e
      | Inr st' \<Rightarrow> merge_loop db lib source_sections source_index ts st')"

text \<open>
  The file system is a map from paths to what is there: a document, a file that is
  no document package, or a directory (one that holds no unpacked package). The
  failures that the map does not decide come from the environment: \<open>copy_error dst\<close>
  is the message of the exception with which \<open>shutil.copy2\<close> fails to write \<open>dst\<close>
  (no permission, no such directory), \<open>save_error path\<close> the exception with which
  \<open>save\<close> fails to write \<open>path\<close>. \<open>stdout\<close> and \<open>stderr\<close> are the lines printed.
\<close>

datatype fs_file = Docx "docx_paragraph list" | NotDocx | Directory

record world =
  files :: "ustr \<rightharpoonup> fs_file"
  copy_error :: "ustr \<Rightarrow> ustr option"
  save_error :: "ustr \<Rightarrow> py_error option"
  stdout :: "ustr list"
  stderr :: "ustr list"

definition path_exists :: "world \<Rightarrow> ustr \<Rightarrow> bool" where
  "path_exists w path \<longleftrightarrow> files w path \<noteq> None"

text \<open>A path in quotes, as the messages of the operating system show it (the \<open>repr\<close>
  of a path that holds no quote, backslash or unprintable character).\<close>

definition quoted :: "ustr \<Rightarrow> ustr" where
  "quoted path = [39] @ path @ [39]"

text \<open>
  \<open>Document(path)\<close>: the paragraphs of a document; \<open>PackageNotFoundError\<close> for a file
  that is no package (and for no file at all); for a directory the library reads
  the package from the files in it and fails on the first, with \<open>FileNotFoundError\<close>.
\<close>

definition open_document :: "world \<Rightarrow> ustr \<Rightarrow> py_error + docx_paragraph list" where
  "open_document w path =
     (case files w path of
        Some (Docx doc) \<Rightarrow> Inr doc
      | Some NotDocx \<Rightarrow> Inl (PackageNotFoundError (u ''Package not found at '' @ quoted path))
      | Some Directory \<Rightarrow>
          Inl (FileNotFoundError
                 (u ''[Errno 2] No such file or directory: '' @
                  quoted (path @ u ''/[Content_Types].xml'')))
      | None \<Rightarrow> Inl (PackageNotFoundError (u ''Package not found at '' @ quoted path)))"

text \<open>\<open>p.rfind(c)\<close>: the last position of \<open>c\<close>, or \<open>-1\<close>.\<close>

definition rfind :: "ustr \<Rightarrow> cp \<Rightarrow> int" where
  "rfind p c =
     (if c \<in> set p then int (length p) - 1 - int (length (takeWhile (\<lambda>x. x \<noteq> c) (rev p)))
      else - 1)"

text \<open>\<open>os.path.splitext\<close> on a POSIX path: the extension starts at the last dot of the
  last component, unless only dots stand before it there.\<close>

definition splitext :: "ustr \<Rightarrow> ustr \<times> ustr" where
  "splitext p =
     (let sepIndex = rfind p 47; dotIndex = rfind p 46
      in if sepIndex < dotIndex \<and>
            list_ex (\<lambda>c. c \<noteq> 46) (take (nat (dotIndex - (sepIndex + 1))) (drop (nat (sepIndex + 1)) p))
         then (take (nat dotIndex) p, drop (nat dotIndex) p)
         else (p, []))"

text \<open>\<open>os.path.basename\<close> and \<open>os.path.join\<close> with a relative second path, on POSIX paths.\<close>

definition basename :: "ustr \<Rightarrow> ustr" where
  "basename p = drop (nat (rfind p 47 + 1)) p"

definition path_join :: "ustr \<Rightarrow> ustr \<Rightarrow> ustr" where
  "path_join a b = (if a = [] \<or> last a = 47 then a @ b else a @ [47] @ b)"

definition backup_path_of :: "ustr \<Rightarrow> ustr" where
  "backup_path_of target_path =
     (case splitext target_path of (base, ext) \<Rightarrow> base @ u '' (backup)'' @ ext)"

text \<open>
  Where \<open>shutil.copy2(src, dst)\<close> writes: into \<open>dst\<close> under the name of \<open>src\<close> when
  \<open>dst\<close> is a directory, to \<open>dst\<close> otherwise.
\<close>

definition copy2_destination :: "world \<Rightarrow> ustr \<Rightarrow> ustr \<Rightarrow> ustr" where
  "copy2_destination w src dst =
     (if files w dst = Some Directory then path_join dst (basename src) else dst)"

text \<open>
  \<open>shutil.copy2(src, dst)\<close>: the new world, or the message of the exception. It
  refuses to copy a file onto itself, reads the source (which must be a file), and
  writes the destination (which must not be a directory).
\<close>

definition copy2 :: "world \<Rightarrow> ustr \<Rightarrow> ustr \<Rightarrow> ustr + world" where
  "copy2 w src dst =
     (let dst' = copy2_destination w src dst
      in if dst' = src
         then Inl (quoted src @ u '' and '' @ quoted dst' @ u '' are the same file'')
         else case files w src of
                None \<Rightarrow> Inl (u ''[Errno 2] No such file or directory: '' @ quoted src)
              | Some Directory \<Rightarrow> Inl (u ''[Errno 21] Is a directory: '' @ quoted src)
              | Some content \<Rightarrow>
                  if files w dst' = Some Directory
                  then Inl (u ''[Errno 21] Is a directory: '' @ quoted dst')
                  else (case copy_error w dst' of
                          Some e \<Rightarrow> Inl e
                        | None \<Rightarrow> Inr (w\<lparr>files := (files w)(dst' \<mapsto> content)\<rparr>)))"

text \<open>The backup step: only when the target exists; a failed copy is a warning.\<close>

definition backup_target :: "world \<Rightarrow> ustr \<Rightarrow> world" where
  "backup_target w target_path =
     (if path_exists w target_path
      then (let backup_path = backup_path_of target_path
            in case copy2 w target_path backup_path of
                 Inr w1 \<Rightarrow>
                   w1\<lparr>stdout := stdout w1 @ [u ''Backed up existing target to: '' @ backup_path]\<rparr>
               | Inl e \<Rightarrow>
                   w\<lparr>stderr := stderr w @ [u ''Warning: failed to backup target: '' @ e]\<rparr>)
      else w)"

text \<open>\<open>out_doc.save(target_path)\<close>: a directory cannot be written as a file; otherwise
  the environment says whether the write fails and how.\<close>

definition save_document :: "world \<Rightarrow> docx_paragraph list \<Rightarrow> ustr \<Rightarrow> py_error + world" where
  "save_document w out_doc target_path =
     (if files w target_path = Some Directory
      then Inl (IsADirectoryError (u ''[Errno 21] Is a directory: '' @ quoted target_path))
      else case save_error w target_path of
             Some e \<Rightarrow> Inl e
           | None \<Rightarrow> Inr (w\<lparr>files := (files w)(target_path \<mapsto> Docx out_doc)\<rparr>))"

record stats =
  matched_sections :: nat
  skipped_sections :: nat
  total_template_sections :: nat

definition merge_chapter ::
  "unicode_db \<Rightarrow> docx_lib \<Rightarrow> world \<Rightarrow> ustr \<Rightarrow> ustr \<Rightarrow> ustr \<Rightarrow> (py_error + stats) \<times> world" where
  "merge_chapter db lib w template_path source_path target_path =
     (if \<not> path_exists w template_path
      then (Inl (FileNotFoundError (u ''Template not found: '' @ template_path)), w)
      else if \<not> path_exists w source_path
      then (Inl (FileNotFoundError (u ''Source not found: '' @ source_path)), w)
      else case open_document w template_path of
        Inl e \<Rightarrow> (Inl e, w)
      | Inr template_doc \<Rightarrow>
     (case open_document w source_path of
        Inl e \<Rightarrow> (Inl e, w)
      | Inr source_doc \<Rightarrow>
     (case parse_sections db template_doc of
        Inl e \<Rightarrow> (Inl e, w)
      | Inr template_sections \<Rightarrow>
     (case parse_sections db source_doc of
        Inl e \<Rightarrow> (Inl e, w)
      | Inr source_sections \<Rightarrow>
     (case merge_loop db lib source_sections (build_title_index source_sections)
             template_sections ([], 0, 0) of
        Inl e \<Rightarrow> (Inl e, w)
      | Inr (out_doc, matched, skipped) \<Rightarrow>
          (let w1 = backup_target w target_path
           in case save_document w1 out_doc target_path of
                Inl e \<Rightarrow> (Inl e, w1)
              | Inr w2 \<Rightarrow>
                  (Inr \<lparr>matched_sections = matched, skipped_sections = skipped,
                        total_template_sections = length template_sections\<rparr>,
                   w2\<lparr>stdout := stdout w2 @ [u ''Wrote merged Chapter 1 to: '' @ target_path]\<rparr>)))))))"

section \<open>Well-formed tables and concrete instances\<close>

text \<open>
  What the proofs use of the character database: a decimal digit is alphanumeric;
  white space and the punctuation that \<open>normalize_title\<close> replaces are not word
  characters; the Thai digits are decimal digits; and \<open>str.lower\<close> leaves a string
  alone that is made of characters of lowered strings and blanks. All four hold of
  the database of CPython.
\<close>

definition unicode_ok :: "unicode_db \<Rightarrow> bool" where
  "unicode_ok db \<longleftrightarrow>
     (\<forall>c. is_digit db c \<longrightarrow> is_alnum db c) \<and>
     (\<forall>c. is_space c \<or> is_punct c \<longrightarrow> \<not> is_word db c) \<and>
     (\<forall>c. is_thai_digit c \<longrightarrow> is_digit db c) \<and>
     (\<forall>s t. set t \<subseteq> insert 32 (set (str_lower db s)) \<longrightarrow> str_lower db t = t)"

text \<open>
  The database restricted to the Basic Latin and Thai blocks, for evaluating the
  functions on strings of those blocks: the ASCII and Thai digits, the ASCII letters
  and the Thai letters (U+0E01 .. U+0E30, U+0E32, U+0E33, U+0E40 .. U+0E46; the
  combining vowels and tone marks are not alphanumeric), and \<open>A\<close> .. \<open>Z\<close> lowered; the
  limit on digit strings is the interpreter's default.
\<close>

definition basic_db :: unicode_db where
  "basic_db =
     \<lparr>decimal_value = (\<lambda>c. if 48 \<le> c \<and> c \<le> 57 then Some (c - 48)
                            else if is_thai_digit c then Some (c - 3664) else None),
      is_alnum = (\<lambda>c. (48 \<le> c \<and> c \<le> 57) \<or> (65 \<le> c \<and> c \<le> 90) \<or> (97 \<le> c \<and> c \<le> 122) \<or>
                       (3585 \<le> c \<and> c \<le> 3632) \<or> c = 3634 \<or> c = 3635 \<or>
                       (3648 \<le> c \<and> c \<le> 3654) \<or> is_thai_digit c),
      str_lower = map (\<lambda>c. if 65 \<le> c \<and> c \<le> 90 then c + 32 else c),
      max_str_digits = 4300\<rparr>"

text \<open>
  The document library as it ships. \<open>add_heading\<close> takes the levels 0 to 9. The
  styles that resolve in a new document and can be given to a paragraph are the
  paragraph styles of the default template: by name, by the lowercase names under
  which the template stores the headings, the caption, the header and the footer,
  and by style identifier, which is the name without its blanks. A character or
  table style resolves too, but giving it to a paragraph raises, which the source
  catches like a missing style.
\<close>

definition default_style_names :: "ustr list" where
  "default_style_names = map u
     [''Normal'', ''Header'', ''Footer'', ''Heading 1'', ''Heading 2'', ''Heading 3'',
      ''Heading 4'', ''Heading 5'', ''Heading 6'', ''Heading 7'', ''Heading 8'', ''Heading 9'',
      ''No Spacing'', ''Title'', ''Subtitle'', ''List Paragraph'', ''Body Text'', ''Body Text 2'',
      ''Body Text 3'', ''List'', ''List 2'', ''List 3'', ''List Bullet'', ''List Bullet 2'',
      ''List Bullet 3'', ''List Number'', ''List Number 2'', ''List Number 3'', ''List Continue'',
      ''List Continue 2'', ''List Continue 3'', ''macro'', ''Quote'', ''Caption'', ''Intense Quote'',
      ''TOC Heading'']"

definition default_style_aliases :: "ustr list" where
  "default_style_aliases = map u
     [''header'', ''footer'', ''caption'', ''heading 1'', ''heading 2'', ''heading 3'',
      ''heading 4'', ''heading 5'', ''heading 6'', ''heading 7'', ''heading 8'', ''heading 9'']"

definition default_style_ids :: "ustr list" where
  "default_style_ids = map u
     [''Heading1'', ''Heading2'', ''Heading3'', ''Heading4'', ''Heading5'', ''Heading6'',
      ''Heading7'', ''Heading8'', ''Heading9'', ''NoSpacing'', ''ListParagraph'', ''BodyText'',
      ''BodyText2'', ''BodyText3'', ''List2'', ''List3'', ''ListBullet'', ''ListBullet2'',
      ''ListBullet3'', ''ListNumber'', ''ListNumber2'', ''ListNumber3'', ''ListContinue'',
      ''ListContinue2'', ''ListContinue3'', ''MacroText'', ''IntenseQuote'', ''TOCHeading'']"

definition default_lib :: docx_lib where
  "default_lib =
     \<lparr>heading_accepted = (\<lambda>lvl. lvl \<le> 9),
      has_style = (\<lambda>n. n \<in> set (default_style_names @ default_style_aliases @ default_style_ids))\<rparr>"

definition styled :: "string \<Rightarrow> string \<Rightarrow> docx_paragraph" where
  "styled sty t = \<lparr>p_style = Some (u sty), p_text = u t, p_runs = [plain_run (u t)]\<rparr>"

text \<open>A source document of two sections with one body paragraph each, and a
  template of three headings, the last of which has no counterpart.\<close>

definition example_source :: "docx_paragraph list" where
  "example_source =
     [styled ''Heading 1'' ''1. Introduction'', styled ''Normal'' ''Intro body'',
      styled ''Normal'' ''1.1 Background'', styled ''Normal'' ''Background body'']"

definition example_template :: "docx_paragraph list" where
  "example_template =
     [styled ''Heading 1'' ''Introduction'', styled ''Heading 2'' ''1.1 Backgrounds'',
      styled ''Heading 2'' ''Scope'']"

text \<open>A document whose second heading normalizes to the empty title and whose first
  and third headings normalize to the same one, and its sections.\<close>

definition dup_doc :: "docx_paragraph list" where
  "dup_doc = [styled ''Heading 1'' ''1. Scope'', styled ''Normal'' ''2.'', styled ''Heading 2'' ''Scope:'']"

definition dup_sections :: "doc_section list" where
  "dup_sections =
     [\<lparr>title = u ''1. Scope'', norm_title = u ''scope'', level = 1, paragraphs = []\<rparr>,
      \<lparr>title = u ''2.'', norm_title = [], level = 1, paragraphs = []\<rparr>,
      \<lparr>title = u ''Scope:'', norm_title = u ''scope'', level = 2, paragraphs = []\<rparr>]"

definition exact_index :: title_index where
  "exact_index = [(u ''backgrounds'', 0), (u ''background'', 1)]"

definition fuzzy_index :: title_index where
  "fuzzy_index = [(u ''abxyz'', 1), (u ''abcxy'', 0)]"

definition far_index :: title_index where
  "far_index = [(u ''abxy'', 0)]"

text \<open>File systems holding the example documents.\<close>

definition example_world :: world where
  "example_world =
     \<lparr>files = [u ''t.docx'' \<mapsto> Docx example_template, u ''s.docx'' \<mapsto> Docx example_source],
      copy_error = (\<lambda>p. None), save_error = (\<lambda>p. None), stdout = [], stderr = []\<rparr>"

definition missing_source_world :: world where
  "missing_source_world =
     \<lparr>files = [u ''t.docx'' \<mapsto> Docx example_template, u ''out.docx'' \<mapsto> NotDocx],
      copy_error = (\<lambda>p. None), save_error = (\<lambda>p. None), stdout = [], stderr = []\<rparr>"

text \<open>A world where the target exists already and the backup copy cannot be written.\<close>

definition rerun_world :: world where
  "rerun_world =
     \<lparr>files = [u ''t.docx'' \<mapsto> Docx example_template, u ''s.docx'' \<mapsto> Docx example_source,
               u ''out.docx'' \<mapsto> NotDocx],
      copy_error = (\<lambda>p. if p = u ''out (backup).docx'' then Some (u ''Permission denied'') else None),
      save_error = (\<lambda>p. None), stdout = [], stderr = []\<rparr>"

definition rerun_ok_world :: world where
  "rerun_ok_world = rerun_world\<lparr>copy_error := (\<lambda>p. None)\<rparr>"

text \<open>A world where the backup path is a directory already.\<close>

definition backup_dir_world :: world where
  "backup_dir_world =
     \<lparr>files = [u ''t.docx'' \<mapsto> Docx example_template, u ''s.docx'' \<mapsto> Docx example_source,
               u ''out.docx'' \<mapsto> NotDocx, u ''out (backup).docx'' \<mapsto> Directory],
      copy_error = (\<lambda>p. None), save_error = (\<lambda>p. None), stdout = [], stderr = []\<rparr>"

text \<open>A world where the backup path is a directory that holds a directory of the
  name of the target.\<close>

definition nested_dir_world :: world where
  "nested_dir_world =
     backup_dir_world\<lparr>files := (files backup_dir_world)(u ''out (backup).docx/out.docx'' \<mapsto> Directory)\<rparr>"

text \<open>A world where the template path is a directory, and one where the directory
  of the target does not exist, so that \<open>save\<close> cannot create the file.\<close>

definition dir_template_world :: world where
  "dir_template_world =
     \<lparr>files = [u ''t.docx'' \<mapsto> Directory, u ''s.docx'' \<mapsto> Docx example_source],
      copy_error = (\<lambda>p. None), save_error = (\<lambda>p. None), stdout = [], stderr = []\<rparr>"

definition missing_dir_world :: world where
  "missing_dir_world =
     \<lparr>files = [u ''t.docx'' \<mapsto> Docx example_template, u ''s.docx'' \<mapsto> Docx example_source],
      copy_error = (\<lambda>p. None),
      save_error = (\<lambda>p. if p = u ''nodir/out.docx''
                        then Some (FileNotFoundError
                                     (u ''[Errno 2] No such file or directory: '' @
                                      quoted (u ''nodir/out.docx'')))
                        else None),
      stdout = [], stderr = []\<rparr>"

text \<open>A heading style name whose digit run is one digit longer than the interpreter
  converts, and a paragraph of that style whose text has a number of its own.\<close>

definition long_style :: ustr where
  "long_style = u ''Heading '' @ replicate 4301 49"

definition long_style_par :: docx_paragraph where
  "long_style_par = \<lparr>p_style = Some long_style, p_text = u ''1.1 Intro'',
                      p_runs = [plain_run (u ''1.1 Intro'')]\<rparr>"

text \<open>A paragraph that the text heuristic reads as a heading of level 10, the
  section it parses to, and a heading of the template without a counterpart.\<close>

definition deep_par :: docx_paragraph where
  "deep_par = \<lparr>p_style = None, p_text = u ''1.1.1.1.1.1.1.1.1.1 Deep'',
               p_runs = [plain_run (u ''1.1.1.1.1.1.1.1.1.1 Deep'')]\<rparr>"

definition deep_section :: doc_section where
  "deep_section = \<lparr>title = u ''1.1.1.1.1.1.1.1.1.1 Deep'', norm_title = u ''deep'',
                   level = 10, paragraphs = []\<rparr>"

definition scope_section :: doc_section where
  "scope_section = \<lparr>title = u ''Scope'', norm_title = u ''scope'', level = 2, paragraphs = []\<rparr>"

definition example_index :: title_index where
  "example_index = [(u ''introduction'', 0), (u ''background'', 1)]"

section \<open>The count of numeric components\<close>

text \<open>
  The count the specification names: the numeric components of the dotted numeric
  prefix of a text, that is of its longest prefix made of a digit run and further
  digit runs each behind a dot.
\<close>

function count_dotted :: "unicode_db \<Rightarrow> ustr \<Rightarrow> nat" where
  "count_dotted db [] = 0"
| "count_dotted db [c] = 0"
| "count_dotted db (c # d # s) =
     (if c = 46 \<and> is_digit db d then Suc (count_dotted db (dropWhile (is_digit db) s)) else 0)"
  by pat_completeness auto
termination
  by (relation "measure (\<lambda>(db, s). length s)") (auto simp: length_dropWhile_le le_imp_less_Suc less_SucI)

definition dotted_prefix_components :: "unicode_db \<Rightarrow> ustr \<Rightarrow> nat" where
  "dotted_prefix_components db s =
     (case s of [] \<Rightarrow> 0
      | c # r \<Rightarrow> if is_digit db c then Suc (count_dotted db (dropWhile (is_digit db) r)) else 0)"

text \<open>A paragraph of a given style name and text.\<close>

definition style_par :: "ustr \<Rightarrow> string \<Rightarrow> docx_paragraph" where
  "style_par sn t = \<lparr>p_style = Some sn, p_text = u t, p_runs = [plain_run (u t)]\<rparr>"

section \<open>Predicates of the proofs\<close>

fun prev_word :: "unicode_db \<Rightarrow> cp option \<Rightarrow> bool" where
  "prev_word db None = False"
| "prev_word db (Some p) = is_word db p"

fun starts_digit :: "unicode_db \<Rightarrow> ustr \<Rightarrow> bool" where
  "starts_digit db [] = False"
| "starts_digit db (c # s) = is_digit db c"

text \<open>Every digit of the text stands behind a word character; \<open>pw\<close> says whether the
  character before the text is one.\<close>

fun guarded :: "unicode_db \<Rightarrow> bool \<Rightarrow> ustr \<Rightarrow> bool" where
  "guarded db pw [] = True"
| "guarded db pw (c # s) = ((is_digit db c \<longrightarrow> pw) \<and> guarded db (is_word db c) s)"

text \<open>White space is collapsed: every white space character is a blank, and no
  two stand side by side.\<close>

fun starts_space :: "ustr \<Rightarrow> bool" where
  "starts_space [] = False"
| "starts_space (c # s) = is_space c"

fun collapsed :: "ustr \<Rightarrow> bool" where
  "collapsed [] = True"
| "collapsed (c # s) = ((is_space c \<longrightarrow> c = 32 \<and> \<not> starts_space s) \<and> collapsed s)"

text \<open>A cursor behind a match: if a digit follows, the character before it is not a
  word character, so the digit starts the next match.\<close>

definition match_closed :: "unicode_db \<Rightarrow> cursor \<Rightarrow> bool" where
  "match_closed db cur \<longleftrightarrow> (starts_digit db (snd cur) \<longrightarrow> \<not> prev_word db (fst cur))"

section \<open>Evaluation\<close>

lemmas string_eval = u_def strip_def is_space_def is_digit_def is_word_def is_thai_digit_def
  is_punct_def basic_db_def normalize_title_def word_boundary_def num_match_end_def eat_dot_def
  Let_def

lemmas heading_eval = get_heading_level_def heading_level_from_text_def trailing_digits_def
  first_digits_def starts_with_def py_int_def within_digit_limit_def match_chapter_def match_numbered_def
  first_token_def thai_to_arabic_def chapter_marker_def thai_heading_word_def

lemmas ratio_eval = ratio_def matching_blocks.simps find_longest_match_def longest_junk_free_def
  scan_row_def row_step_def b2j_get_def popular_def j2len_get_def extend_back.simps
  extend_fwd.simps upt_rec

lemmas merge_eval = merge_chapter_def path_exists_def open_document_def parse_sections_def
  build_title_index_def merge_step_def find_best_match_def emit_heading_def add_heading_def
  heading_style_def copy_paragraph_def copy_run_formatting_def plain_run_def styled_def
  backup_target_def save_document_def add_paragraph_with_style_def str_of_nat.simps
  copy2_def copy2_destination_def backup_path_of_def splitext_def rfind_def basename_def
  path_join_def quoted_def default_lib_def default_style_names_def default_style_aliases_def
  default_style_ids_def

section \<open>The title index and the matcher\<close>

lemma parse_dup: "parse_sections basic_db dup_doc = Inr dup_sections"
  by (simp add: parse_sections_def dup_doc_def dup_sections_def styled_def plain_run_def heading_eval string_eval)

lemma index_dup: "build_title_index dup_sections = [(u ''scope'', 2)]"
  by (simp add: build_title_index_def dup_sections_def u_def)



lemma index_loop_no_empty:
  "map_of index0 [] = None \<Longrightarrow> map_of (index_loop n secs index0) [] = None"
  by (induction secs arbitrary: n index0) (auto simp: Let_def update_conv')

lemma index_loop_distinct:
  "distinct (map fst index0) \<Longrightarrow> distinct (map fst (index_loop n secs index0))"
  by (induction secs arbitrary: n index0) (auto simp: Let_def distinct_update)

lemma index_loop_lookup:
  assumes "map_of index0 [] = None" "map_of (index_loop n secs index0) k = Some i"
  shows "(map_of index0 k = Some i \<and> (\<forall>j<length secs. norm_title (secs ! j) \<noteq> k)) \<or>
         (n \<le> i \<and> i - n < length secs \<and> norm_title (secs ! (i - n)) = k \<and>
          (\<forall>j. i - n < j \<and> j < length secs \<longrightarrow> norm_title (secs ! j) \<noteq> k))"
  using assms
proof (induction secs arbitrary: n index0)
  case Nil
  then show ?case by simp
next
  case (Cons s ss)
  define index1 where "index1 = (if norm_title s \<noteq> [] then AList.update (norm_title s) n index0 else index0)"
  have e1: "map_of index1 [] = None"
    using Cons.prems(1) by (auto simp: index1_def update_conv')
  have r: "map_of (index_loop (Suc n) ss index1) k = Some i"
    using Cons.prems(2) by (auto simp: index1_def Let_def split: if_splits)
  from Cons.IH[OF e1 r] consider
    (old) "map_of index1 k = Some i" "\<forall>j<length ss. norm_title (ss ! j) \<noteq> k"
    | (new) "Suc n \<le> i" "i - Suc n < length ss" "norm_title (ss ! (i - Suc n)) = k"
        "\<forall>j. i - Suc n < j \<and> j < length ss \<longrightarrow> norm_title (ss ! j) \<noteq> k"
    by blast
  then show ?case
  proof cases
    case old
    show ?thesis
    proof (cases "norm_title s = k")
      case True
      have "k \<noteq> []" using old(1) e1 by auto
      with True old(1) have "i = n" by (simp add: index1_def update_conv')
      moreover have "\<forall>j. 0 < j \<and> j < length (s # ss) \<longrightarrow> norm_title ((s # ss) ! j) \<noteq> k"
      proof (intro allI impI)
        fix j assume j: "0 < j \<and> j < length (s # ss)"
        then obtain j' where j': "j = Suc j'" by (cases j) auto
        with j old(2) show "norm_title ((s # ss) ! j) \<noteq> k" by simp
      qed
      ultimately show ?thesis using True by simp
    next
      case False
      then have "map_of index0 k = Some i" using old(1)
        by (auto simp: index1_def update_conv' split: if_splits)
      moreover have "\<forall>j<length (s # ss). norm_title ((s # ss) ! j) \<noteq> k"
      proof (intro allI impI)
        fix j assume j: "j < length (s # ss)"
        show "norm_title ((s # ss) ! j) \<noteq> k"
        proof (cases j)
          case 0 with False show ?thesis by simp
        next
          case (Suc j') with j old(2) show ?thesis by simp
        qed
      qed
      ultimately show ?thesis by simp
    qed
  next
    case new
    have a: "i - n = Suc (i - Suc n)" using new(1) by simp
    have "\<forall>j. i - n < j \<and> j < length (s # ss) \<longrightarrow> norm_title ((s # ss) ! j) \<noteq> k"
    proof (intro allI impI)
      fix j assume j: "i - n < j \<and> j < length (s # ss)"
      then obtain j' where j': "j = Suc j'" by (cases j) auto
      with j a have "i - Suc n < j' \<and> j' < length ss" by simp
      with new(4) j' show "norm_title ((s # ss) ! j) \<noteq> k" by simp
    qed
    moreover have "norm_title ((s # ss) ! (i - n)) = k" using new(3) a by simp
    moreover have "i - n < length (s # ss)" using new(2) a by simp
    moreover have "n \<le> i" using new(1) by simp
    ultimately show ?thesis by blast
  qed
qed

lemma index_loop_keys:
  "fst ` set (index_loop n secs index0) =
   fst ` set index0 \<union> {k. k \<noteq> [] \<and> k \<in> norm_title ` set secs}"
  by (induction secs arbitrary: n index0) (auto simp: Let_def dom_update)

lemma build_title_index_entry:
  assumes "(k, i) \<in> set (build_title_index secs)"
  shows "i < length secs \<and> k \<noteq> [] \<and> norm_title (secs ! i) = k \<and>
         (\<forall>j. i < j \<and> j < length secs \<longrightarrow> norm_title (secs ! j) \<noteq> k)"
proof -
  have d: "distinct (map fst (build_title_index secs))"
    unfolding build_title_index_def by (rule index_loop_distinct) simp
  with assms have m: "map_of (index_loop 0 secs []) k = Some i"
    by (simp add: build_title_index_def)
  have "map_of (index_loop 0 secs []) [] = None"
    by (rule index_loop_no_empty) simp
  with m have "k \<noteq> []" by auto
  moreover from index_loop_lookup[OF _ m] have
    "i < length secs \<and> norm_title (secs ! i) = k \<and>
     (\<forall>j. i < j \<and> j < length secs \<longrightarrow> norm_title (secs ! j) \<noteq> k)" by simp
  ultimately show ?thesis by simp
qed

lemma fuzzy_loop_from_index:
  "fst (fuzzy_loop t index best) = Some i \<Longrightarrow> fst best = Some i \<or> (\<exists>k. (k, i) \<in> set index)"
proof (induction t index best rule: fuzzy_loop.induct)
  case (2 t_key s_key s_idx rest best_idx best_score)
  then show ?case by (auto simp: Let_def split: if_splits)
qed simp

lemma find_best_match_from_index:
  assumes "find_best_match db t index = Some i"
  shows "\<exists>k. (k, i) \<in> set index"
proof (cases "map_of index (normalize_title db t)")
  case (Some j)
  with assms have "j = i" by (simp add: find_best_match_def)
  with Some show ?thesis by (auto dest: map_of_SomeD)
next
  case None
  obtain bi bs where f: "fuzzy_loop (normalize_title db t) index (None, 0) = (bi, bs)"
    by (cases "fuzzy_loop (normalize_title db t) index (None, 0)") auto
  with None assms have "bi = Some i" by (auto simp: find_best_match_def split: if_splits)
  with f fuzzy_loop_from_index[of "normalize_title db t" index "(None, 0)" i] show ?thesis by simp
qed

text \<open>
  C10. The index built from the source sections has no entry under the empty
  normalized title and no key twice; an entry \<open>(k, i)\<close> names a position \<open>i\<close> inside the
  section list whose normalized title is \<open>k\<close>, and no later section has that title
  (the last one wins); every section with a normalized title that is not empty has
  its title as a key; and whatever \<open>find_best_match\<close> returns on this index is the
  position of a section whose normalized title is not empty, so a section with an
  empty one is never matched.
\<close>

theorem build_title_index_entries:
  "map_of (build_title_index secs) [] = None \<and>
   distinct (map fst (build_title_index secs)) \<and>
   (\<forall>k i. (k, i) \<in> set (build_title_index secs) \<longrightarrow>
      i < length secs \<and> k \<noteq> [] \<and> norm_title (secs ! i) = k \<and>
      (\<forall>j. i < j \<and> j < length secs \<longrightarrow> norm_title (secs ! j) \<noteq> k)) \<and>
   (\<forall>j. j < length secs \<and> norm_title (secs ! j) \<noteq> [] \<longrightarrow>
      norm_title (secs ! j) \<in> fst ` set (build_title_index secs)) \<and>
   (\<forall>db t i. find_best_match db t (build_title_index secs) = Some i \<longrightarrow>
      i < length secs \<and> norm_title (secs ! i) \<noteq> [])"
proof -
  have 1: "map_of (build_title_index secs) [] = None"
    unfolding build_title_index_def by (rule index_loop_no_empty) simp
  have 2: "distinct (map fst (build_title_index secs))"
    unfolding build_title_index_def by (rule index_loop_distinct) simp
  have 3: "\<forall>k i. (k, i) \<in> set (build_title_index secs) \<longrightarrow>
      i < length secs \<and> k \<noteq> [] \<and> norm_title (secs ! i) = k \<and>
      (\<forall>j. i < j \<and> j < length secs \<longrightarrow> norm_title (secs ! j) \<noteq> k)"
    using build_title_index_entry by blast
  have 4: "\<forall>j. j < length secs \<and> norm_title (secs ! j) \<noteq> [] \<longrightarrow>
      norm_title (secs ! j) \<in> fst ` set (build_title_index secs)"
    by (auto simp: build_title_index_def index_loop_keys)
  have 5: "\<forall>db t i. find_best_match db t (build_title_index secs) = Some i \<longrightarrow>
      i < length secs \<and> norm_title (secs ! i) \<noteq> []"
  proof (intro allI impI)
    fix db t i assume "find_best_match db t (build_title_index secs) = Some i"
    then obtain k where "(k, i) \<in> set (build_title_index secs)"
      using find_best_match_from_index by blast
    from build_title_index_entry[OF this]
    show "i < length secs \<and> norm_title (secs ! i) \<noteq> []" by auto
  qed
  from 1 2 3 4 5 show ?thesis by blast
qed

theorem build_title_index_entries_witness:
  "parse_sections basic_db dup_doc = Inr dup_sections \<and>
   build_title_index dup_sections = [(u ''scope'', 2)] \<and>
   norm_title (dup_sections ! 1) = [] \<and>
   norm_title (dup_sections ! 0) = norm_title (dup_sections ! 2) \<and>
   2 < length dup_sections \<and> norm_title (dup_sections ! 2) = u ''scope'' \<and>
   find_best_match basic_db (u ''3. SCOPE'') (build_title_index dup_sections) = Some 2"
proof -
  have m: "(u ''scope'', 2) \<in> set (build_title_index dup_sections)"
    by (simp add: index_dup)
  have f: "find_best_match basic_db (u ''3. SCOPE'') (build_title_index dup_sections) = Some 2"
    by (simp add: index_dup find_best_match_def string_eval)
  from build_title_index_entries[of dup_sections] m f
  have "2 < length dup_sections \<and> norm_title (dup_sections ! 2) = u ''scope''" by blast
  moreover have "norm_title (dup_sections ! 1) = []"
    "norm_title (dup_sections ! 0) = norm_title (dup_sections ! 2)"
    by (simp_all add: dup_sections_def)
  ultimately show ?thesis using parse_dup index_dup f by simp
qed

text \<open>
  C1. When the normalized template title is a key of the index, \<open>find_best_match\<close>
  returns the position stored under it; no condition is put on the ratios of the
  other keys.
\<close>

theorem find_best_match_exact:
  "map_of source_index (normalize_title db template_title) = Some pos \<Longrightarrow>
   find_best_match db template_title source_index = Some pos"
  by (simp add: find_best_match_def)

theorem find_best_match_exact_witness:
  "map_of exact_index (normalize_title basic_db (u ''1.1 Background'')) = Some 1 \<and>
   find_best_match basic_db (u ''1.1 Background'') exact_index = Some 1"
proof -
  have h: "map_of exact_index (normalize_title basic_db (u ''1.1 Background'')) = Some 1"
    by (simp add: exact_index_def string_eval)
  from find_best_match_exact[OF h] h show ?thesis by blast
qed

lemma ratio_nonneg: "0 \<le> ratio a b"
  by (simp add: ratio_def Let_def)

lemma fuzzy_loop_max:
  assumes "fuzzy_loop t index (bi, bs) = (bi', bs')"
  shows "bs \<le> bs' \<and> (\<forall>(k, v) \<in> set index. ratio t k \<le> bs') \<and>
         ((bi' = bi \<and> bs' = bs) \<or>
          (bs < bs' \<and> (\<exists>(k, v) \<in> set index. ratio t k = bs' \<and> bi' = Some v)))"
  using assms
proof (induction t index "(bi, bs)" arbitrary: bi bs rule: fuzzy_loop.induct)
  case (1 t_key)
  then show ?case by simp
next
  case (2 t_key s_key s_idx rest best_idx best_score)
  show ?case
  proof (cases "best_score < ratio t_key s_key")
    case True
    with 2 have "fuzzy_loop t_key rest (Some s_idx, ratio t_key s_key) = (bi', bs')"
      by (simp add: Let_def)
    from "2.hyps"(1)[OF refl True this] True show ?thesis
      by (auto simp: Let_def)
  next
    case False
    with 2 have "fuzzy_loop t_key rest (best_idx, best_score) = (bi', bs')"
      by (simp add: Let_def)
    from "2.hyps"(2)[OF refl False this] False show ?thesis
      by (auto simp: Let_def)
  qed
qed

text \<open>
  C2. When the normalized template title is not a key of the index, the ratio to
  every key is computed; with \<open>m\<close> the largest of them, a position is returned exactly
  when \<open>m\<close> is at least 0.6, and then it is the position of a key whose ratio is \<open>m\<close>;
  below 0.6 (and on an empty index) the result is no match.
\<close>

theorem find_best_match_fuzzy:
  assumes "map_of source_index (normalize_title db template_title) = None"
  shows "(source_index = [] \<longrightarrow> find_best_match db template_title source_index = None) \<and>
         (source_index \<noteq> [] \<longrightarrow>
           (let m = Max ((\<lambda>(k, v). ratio (normalize_title db template_title) k) ` set source_index)
            in (6 / 10 \<le> m \<longrightarrow>
                  (\<exists>(k, v) \<in> set source_index.
                     ratio (normalize_title db template_title) k = m \<and>
                     find_best_match db template_title source_index = Some v)) \<and>
               (m < 6 / 10 \<longrightarrow> find_best_match db template_title source_index = None)))"
proof -
  define tk where "tk = normalize_title db template_title"
  obtain bi bs where f: "fuzzy_loop tk source_index (None, 0) = (bi, bs)"
    by (cases "fuzzy_loop tk source_index (None, 0)") auto
  have r: "find_best_match db template_title source_index = (if 6 / 10 \<le> bs then bi else None)"
    using assms f by (simp add: find_best_match_def tk_def)
  from fuzzy_loop_max[OF f] have
    ub: "\<forall>(k, v) \<in> set source_index. ratio tk k \<le> bs" and
    alt: "(bi = None \<and> bs = 0) \<or> (0 < bs \<and> (\<exists>(k, v) \<in> set source_index. ratio tk k = bs \<and> bi = Some v))"
    by auto
  have e: "source_index = [] \<longrightarrow> find_best_match db template_title source_index = None"
    using f r by auto
  have n: "source_index \<noteq> [] \<longrightarrow>
           (let m = Max ((\<lambda>(k, v). ratio tk k) ` set source_index)
            in (6 / 10 \<le> m \<longrightarrow>
                  (\<exists>(k, v) \<in> set source_index. ratio tk k = m \<and>
                     find_best_match db template_title source_index = Some v)) \<and>
               (m < 6 / 10 \<longrightarrow> find_best_match db template_title source_index = None))"
  proof
    assume ne: "source_index \<noteq> []"
    let ?S = "(\<lambda>(k, v). ratio tk k) ` set source_index"
    have fin: "finite ?S" "?S \<noteq> {}" using ne by auto
    have bsmax: "bi \<noteq> None \<Longrightarrow> Max ?S = bs"
    proof (rule Max_eqI)
      show "finite ?S" by (rule fin)
      fix y assume "y \<in> ?S" then show "y \<le> bs" using ub by auto
    next
      assume "bi \<noteq> None" with alt show "bs \<in> ?S" by force
    qed
    have zero: "bi = None \<Longrightarrow> Max ?S \<le> 0"
      using alt ub fin by (auto simp: Max_le_iff)
    show "let m = Max ?S
          in (6 / 10 \<le> m \<longrightarrow>
                (\<exists>(k, v) \<in> set source_index. ratio tk k = m \<and>
                   find_best_match db template_title source_index = Some v)) \<and>
             (m < 6 / 10 \<longrightarrow> find_best_match db template_title source_index = None)"
    proof (cases bi)
      case None
      with zero alt r show ?thesis by (auto simp: Let_def)
    next
      case (Some v)
      with bsmax have "Max ?S = bs" by simp
      with Some alt r show ?thesis by (auto simp: Let_def)
    qed
  qed
  from e n show ?thesis unfolding tk_def by blast
qed

theorem find_best_match_fuzzy_witness:
  "map_of fuzzy_index (normalize_title basic_db (u ''2. ABCDE'')) = None \<and>
   ratio (u ''abcde'') (u ''abxyz'') = 4 / 10 \<and> ratio (u ''abcde'') (u ''abcxy'') = 6 / 10 \<and>
   find_best_match basic_db (u ''2. ABCDE'') fuzzy_index = Some 0 \<and>
   map_of far_index (normalize_title basic_db (u ''abc'')) = None \<and>
   ratio (u ''abc'') (u ''abxy'') = 4 / 7 \<and>
   find_best_match basic_db (u ''abc'') far_index = None"
proof -
  have n1: "normalize_title basic_db (u ''2. ABCDE'') = u ''abcde''"
    and n2: "normalize_title basic_db (u ''abc'') = u ''abc''"
    by (simp_all add: string_eval)
  have h1: "map_of fuzzy_index (normalize_title basic_db (u ''2. ABCDE'')) = None"
    and h2: "map_of far_index (normalize_title basic_db (u ''abc'')) = None"
    unfolding n1 n2 by (simp_all add: u_def fuzzy_index_def far_index_def)
  have r1: "ratio (u ''abcde'') (u ''abxyz'') = 4 / 10"
    and r2: "ratio (u ''abcde'') (u ''abcxy'') = 6 / 10"
    and r3: "ratio (u ''abc'') (u ''abxy'') = 4 / 7"
    by (simp_all add: ratio_eval u_def)
  have f1: "find_best_match basic_db (u ''2. ABCDE'') fuzzy_index = Some 0"
    using find_best_match_fuzzy[OF h1] unfolding n1 by (simp add: fuzzy_index_def r1 r2 Let_def)
  have f2: "find_best_match basic_db (u ''abc'') far_index = None"
    using find_best_match_fuzzy[OF h2] unfolding n2 by (simp add: far_index_def r3 Let_def)
  from h1 r1 r2 f1 h2 r3 f2 show ?thesis by blast
qed


section \<open>The merge\<close>

lemma heading_level_from_text_error:
  "heading_level_from_text db t = Inl e \<Longrightarrow> e = IndexError"
  by (auto simp: heading_level_from_text_def Let_def split: if_splits option.splits)

lemma get_heading_level_error: "get_heading_level db p = Inl e \<Longrightarrow> e = IndexError"
  by (auto simp: get_heading_level_def Let_def split: if_splits dest: heading_level_from_text_error)

lemma parse_loop_error: "parse_loop db ps secs = Inl e \<Longrightarrow> e = IndexError"
  by (induction db ps secs rule: parse_loop.induct)
     (auto split: sum.splits option.splits if_splits dest: get_heading_level_error)

lemma merge_step_error:
  "merge_step db lib ss idx t st = Inl e \<Longrightarrow> e = IndexError"
  by (auto simp: merge_step_def Let_def split: prod.splits option.splits if_splits)

lemma merge_loop_error:
  "merge_loop db lib ss idx ts st = Inl e \<Longrightarrow> e = IndexError"
  by (induction db lib ss idx ts st rule: merge_loop.induct)
     (auto split: sum.splits dest: merge_step_error)

lemma merge_step_count:
  "merge_step db lib ss idx t (out, m, k) = Inr (out', m', k') \<Longrightarrow> m' + k' = m + k + 1"
  by (auto simp: merge_step_def Let_def split: option.splits if_splits)

lemma merge_loop_count:
  "merge_loop db lib ss idx ts (out, m, k) = Inr (out', m', k') \<Longrightarrow> m' + k' = m + k + length ts"
proof (induction ts arbitrary: out m k)
  case Nil
  then show ?case by simp
next
  case (Cons t ts)
  then obtain o1 m1 k1 where s: "merge_step db lib ss idx t (out, m, k) = Inr (o1, m1, k1)"
    and l: "merge_loop db lib ss idx ts (o1, m1, k1) = Inr (out', m', k')"
    by (auto split: sum.splits)
  from merge_step_count[OF s] Cons.IH[OF l] show ?case by simp
qed

text \<open>
  C9. A run of \<open>merge_chapter\<close> that returns its statistics has counted every
  template section once: \<open>matched + skipped\<close> is the total, and the total is the
  number of sections parsed from the template document.
\<close>

theorem merge_chapter_counts:
  assumes "merge_chapter db lib w template_path source_path target_path = (Inr st, w')"
  shows "matched_sections st + skipped_sections st = total_template_sections st \<and>
         (\<exists>template_doc secs. files w template_path = Some (Docx template_doc) \<and>
            parse_sections db template_doc = Inr secs \<and>
            total_template_sections st = length secs)"
proof -
  from assms obtain td where td: "files w template_path = Some (Docx td)"
    by (auto simp: merge_chapter_def open_document_def
             split: if_splits sum.splits option.splits fs_file.splits)
  from assms obtain sd where sd: "files w source_path = Some (Docx sd)"
    by (auto simp: merge_chapter_def open_document_def
             split: if_splits sum.splits option.splits fs_file.splits)
  from assms td sd obtain ts where ts: "parse_sections db td = Inr ts"
    by (auto simp: merge_chapter_def open_document_def path_exists_def split: sum.splits)
  from assms td sd ts obtain ss where ss: "parse_sections db sd = Inr ss"
    by (auto simp: merge_chapter_def open_document_def path_exists_def split: sum.splits)
  from assms td sd ts ss obtain out m k where
    l: "merge_loop db lib ss (build_title_index ss) ts ([], 0, 0) = Inr (out, m, k)"
    by (auto simp: merge_chapter_def open_document_def path_exists_def split: sum.splits)
  from assms td sd ts ss l have
    st: "st = \<lparr>matched_sections = m, skipped_sections = k, total_template_sections = length ts\<rparr>"
    by (auto simp: merge_chapter_def open_document_def path_exists_def Let_def split: sum.splits)
  from merge_loop_count[OF l] st td ts show ?thesis by simp
qed

lemma example_run:
  "fst (merge_chapter basic_db default_lib example_world (u ''t.docx'') (u ''s.docx'') (u ''out.docx''))
   = Inr \<lparr>matched_sections = 2, skipped_sections = 1, total_template_sections = 3\<rparr>"
  by (simp add: example_world_def example_template_def example_source_def merge_eval
        heading_eval string_eval ratio_eval)


theorem merge_chapter_counts_witness:
  "merge_chapter basic_db default_lib example_world (u ''t.docx'') (u ''s.docx'') (u ''out.docx'') =
     (Inr \<lparr>matched_sections = 2, skipped_sections = 1, total_template_sections = 3\<rparr>,
      snd (merge_chapter basic_db default_lib example_world (u ''t.docx'') (u ''s.docx'') (u ''out.docx''))) \<and>
   matched_sections \<lparr>matched_sections = 2, skipped_sections = 1, total_template_sections = 3\<rparr> +
   skipped_sections \<lparr>matched_sections = 2, skipped_sections = 1, total_template_sections = 3\<rparr> =
   total_template_sections \<lparr>matched_sections = 2, skipped_sections = 1, total_template_sections = 3\<rparr>"
proof -
  have r: "merge_chapter basic_db default_lib example_world (u ''t.docx'') (u ''s.docx'') (u ''out.docx'') =
     (Inr \<lparr>matched_sections = 2, skipped_sections = 1, total_template_sections = 3\<rparr>,
      snd (merge_chapter basic_db default_lib example_world (u ''t.docx'') (u ''s.docx'') (u ''out.docx'')))"
    using example_run by (simp add: prod_eq_iff)
  from merge_chapter_counts[OF r] r show ?thesis by blast
qed

lemma backup_target_save_error: "save_error (backup_target w p) = save_error w"
  by (auto simp: backup_target_def copy2_def Let_def split: sum.splits option.splits fs_file.splits if_splits)

lemma save_document_error:
  "save_document w d p = Inl e \<Longrightarrow>
   e = IsADirectoryError (u ''[Errno 21] Is a directory: '' @ quoted p) \<or> save_error w p = Some e"
  by (auto simp: save_document_def split: if_splits option.splits)

lemma merge_chapter_library_error:
  assumes "path_exists w template_path" "path_exists w source_path"
    and "fst (merge_chapter db lib w template_path source_path target_path)
           = Inl (FileNotFoundError msg)"
  shows "open_document w template_path = Inl (FileNotFoundError msg) \<or>
         open_document w source_path = Inl (FileNotFoundError msg) \<or>
         save_error w target_path = Some (FileNotFoundError msg)"
proof (cases "open_document w template_path")
  case (Inl e)
  with assms show ?thesis by (simp add: merge_chapter_def)
next
  case td: (Inr template_doc)
  show ?thesis
  proof (cases "open_document w source_path")
    case (Inl e)
    with assms td show ?thesis by (simp add: merge_chapter_def)
  next
    case sd: (Inr source_doc)
    show ?thesis
    proof (cases "parse_sections db template_doc")
      case (Inl e)
      then have "e = IndexError" unfolding parse_sections_def by (rule parse_loop_error)
      with assms td sd Inl show ?thesis by (simp add: merge_chapter_def)
    next
      case ts: (Inr template_sections)
      show ?thesis
      proof (cases "parse_sections db source_doc")
        case (Inl e)
        then have "e = IndexError" unfolding parse_sections_def by (rule parse_loop_error)
        with assms td sd ts Inl show ?thesis by (simp add: merge_chapter_def)
      next
        case ss: (Inr source_sections)
        show ?thesis
        proof (cases "merge_loop db lib source_sections (build_title_index source_sections)
                        template_sections ([], 0, 0)")
          case (Inl e)
          then have "e = IndexError" by (rule merge_loop_error)
          with assms td sd ts ss Inl show ?thesis by (simp add: merge_chapter_def)
        next
          case (Inr st)
          obtain out_doc m k where st: "st = (out_doc, m, k)" by (rule prod_cases3)
          show ?thesis
          proof (cases "save_document (backup_target w target_path) out_doc target_path")
            case e: (Inl e)
            with assms td sd ts ss Inr st have "e = FileNotFoundError msg"
              by (simp add: merge_chapter_def Let_def)
            with save_document_error[OF e] show ?thesis
              by (simp add: backup_target_save_error)
          next
            case w2: (Inr w2)
            with assms td sd ts ss Inr st show ?thesis by (simp add: merge_chapter_def Let_def)
          qed
        qed
      qed
    qed
  qed
qed

lemma dir_template_run:
  "fst (merge_chapter basic_db default_lib dir_template_world (u ''t.docx'') (u ''s.docx'') (u ''out.docx''))
     = Inl (FileNotFoundError (u ''[Errno 2] No such file or directory: '' @
                               quoted (u ''t.docx/[Content_Types].xml'')))"
  by (simp add: merge_chapter_def path_exists_def open_document_def dir_template_world_def
                u_def quoted_def)

text \<open>
  C6, as the code has it. A missing template gives \<open>FileNotFoundError\<close> with the
  message \<open>Template not found\<close>, a missing source (the template being there) the one
  with \<open>Source not found\<close>; in both cases the world is as it was before the call: no
  file has been written or copied and nothing has been printed. With both paths
  there, a \<open>FileNotFoundError\<close> is one that the library raised: \<open>Document\<close> on one of
  the two inputs, or \<open>save\<close> on the target.
\<close>

theorem merge_chapter_missing_input:
  "(\<not> path_exists w template_path \<longrightarrow>
      merge_chapter db lib w template_path source_path target_path =
        (Inl (FileNotFoundError (u ''Template not found: '' @ template_path)), w)) \<and>
   (path_exists w template_path \<and> \<not> path_exists w source_path \<longrightarrow>
      merge_chapter db lib w template_path source_path target_path =
        (Inl (FileNotFoundError (u ''Source not found: '' @ source_path)), w)) \<and>
   (\<forall>msg. path_exists w template_path \<and> path_exists w source_path \<and>
      fst (merge_chapter db lib w template_path source_path target_path)
        = Inl (FileNotFoundError msg) \<longrightarrow>
      open_document w template_path = Inl (FileNotFoundError msg) \<or>
      open_document w source_path = Inl (FileNotFoundError msg) \<or>
      save_error w target_path = Some (FileNotFoundError msg))"
proof -
  have 1: "\<not> path_exists w template_path \<longrightarrow>
      merge_chapter db lib w template_path source_path target_path =
        (Inl (FileNotFoundError (u ''Template not found: '' @ template_path)), w)"
    by (simp add: merge_chapter_def)
  have 2: "path_exists w template_path \<and> \<not> path_exists w source_path \<longrightarrow>
      merge_chapter db lib w template_path source_path target_path =
        (Inl (FileNotFoundError (u ''Source not found: '' @ source_path)), w)"
    by (simp add: merge_chapter_def)
  have 3: "\<forall>msg. path_exists w template_path \<and> path_exists w source_path \<and>
      fst (merge_chapter db lib w template_path source_path target_path)
        = Inl (FileNotFoundError msg) \<longrightarrow>
      open_document w template_path = Inl (FileNotFoundError msg) \<or>
      open_document w source_path = Inl (FileNotFoundError msg) \<or>
      save_error w target_path = Some (FileNotFoundError msg)"
    using merge_chapter_library_error by blast
  from 1 2 3 show ?thesis by (intro conjI)
qed

theorem merge_chapter_missing_input_witness:
  "\<not> path_exists missing_source_world (u ''s.docx'') \<and>
   merge_chapter basic_db default_lib missing_source_world (u ''s.docx'') (u ''t.docx'') (u ''out.docx'')
     = (Inl (FileNotFoundError (u ''Template not found: s.docx'')), missing_source_world) \<and>
   path_exists missing_source_world (u ''t.docx'') \<and>
   merge_chapter basic_db default_lib missing_source_world (u ''t.docx'') (u ''s.docx'') (u ''out.docx'')
     = (Inl (FileNotFoundError (u ''Source not found: s.docx'')), missing_source_world) \<and>
   files missing_source_world (u ''out.docx'') = Some NotDocx \<and>
   files missing_source_world (u ''out (backup).docx'') = None \<and>
   path_exists dir_template_world (u ''t.docx'') \<and> path_exists dir_template_world (u ''s.docx'') \<and>
   fst (merge_chapter basic_db default_lib dir_template_world (u ''t.docx'') (u ''s.docx'') (u ''out.docx''))
     = Inl (FileNotFoundError (u ''[Errno 2] No such file or directory: '' @
                               quoted (u ''t.docx/[Content_Types].xml''))) \<and>
   open_document dir_template_world (u ''t.docx'')
     = Inl (FileNotFoundError (u ''[Errno 2] No such file or directory: '' @
                               quoted (u ''t.docx/[Content_Types].xml'')))"
proof -
  let ?msg = "u ''[Errno 2] No such file or directory: '' @ quoted (u ''t.docx/[Content_Types].xml'')"
  have t: "path_exists missing_source_world (u ''t.docx'')"
    and h: "\<not> path_exists missing_source_world (u ''s.docx'')"
    by (simp_all add: path_exists_def missing_source_world_def u_def)
  have f: "files missing_source_world (u ''out.docx'') = Some NotDocx"
    "files missing_source_world (u ''out (backup).docx'') = None"
    by (simp_all add: missing_source_world_def u_def)
  from merge_chapter_missing_input[of missing_source_world "u ''s.docx''" basic_db default_lib
      "u ''t.docx''" "u ''out.docx''"] h
  have "merge_chapter basic_db default_lib missing_source_world (u ''s.docx'') (u ''t.docx'') (u ''out.docx'')
     = (Inl (FileNotFoundError (u ''Template not found: '' @ u ''s.docx'')), missing_source_world)"
    by blast
  then have 1: "merge_chapter basic_db default_lib missing_source_world (u ''s.docx'') (u ''t.docx'') (u ''out.docx'')
     = (Inl (FileNotFoundError (u ''Template not found: s.docx'')), missing_source_world)"
    by (simp add: u_def)
  from merge_chapter_missing_input[of missing_source_world "u ''t.docx''" basic_db default_lib
      "u ''s.docx''" "u ''out.docx''"] t h
  have "merge_chapter basic_db default_lib missing_source_world (u ''t.docx'') (u ''s.docx'') (u ''out.docx'')
     = (Inl (FileNotFoundError (u ''Source not found: '' @ u ''s.docx'')), missing_source_world)"
    by blast
  then have 2: "merge_chapter basic_db default_lib missing_source_world (u ''t.docx'') (u ''s.docx'') (u ''out.docx'')
     = (Inl (FileNotFoundError (u ''Source not found: s.docx'')), missing_source_world)"
    by (simp add: u_def)
  have e: "path_exists dir_template_world (u ''t.docx'')" "path_exists dir_template_world (u ''s.docx'')"
    by (simp_all add: path_exists_def dir_template_world_def u_def)
  have s: "open_document dir_template_world (u ''s.docx'') \<noteq> Inl (FileNotFoundError ?msg)"
    "save_error dir_template_world (u ''out.docx'') \<noteq> Some (FileNotFoundError ?msg)"
    by (simp_all add: open_document_def dir_template_world_def u_def)
  from merge_chapter_missing_input[of dir_template_world "u ''t.docx''" basic_db default_lib
      "u ''s.docx''" "u ''out.docx''"] e dir_template_run
  have "open_document dir_template_world (u ''t.docx'') = Inl (FileNotFoundError ?msg) \<or>
        open_document dir_template_world (u ''s.docx'') = Inl (FileNotFoundError ?msg) \<or>
        save_error dir_template_world (u ''out.docx'') = Some (FileNotFoundError ?msg)"
    by blast
  with s have 3: "open_document dir_template_world (u ''t.docx'') = Inl (FileNotFoundError ?msg)"
    by blast
  from h 1 t 2 f e dir_template_run 3 show ?thesis by (intro conjI)
qed

text \<open>
  C6 as stated fails in its "only if": the error is \<open>FileNotFoundError\<close> too when
  the template path is a directory, which exists, and when the target lies in a
  directory that does not exist, although template and source are both there.
\<close>

theorem merge_chapter_file_not_found_counterexample:
  "path_exists dir_template_world (u ''t.docx'') \<and> path_exists dir_template_world (u ''s.docx'') \<and>
   fst (merge_chapter basic_db default_lib dir_template_world (u ''t.docx'') (u ''s.docx'') (u ''out.docx''))
     = Inl (FileNotFoundError (u ''[Errno 2] No such file or directory: '' @
                               quoted (u ''t.docx/[Content_Types].xml''))) \<and>
   path_exists missing_dir_world (u ''t.docx'') \<and> path_exists missing_dir_world (u ''s.docx'') \<and>
   fst (merge_chapter basic_db default_lib missing_dir_world (u ''t.docx'') (u ''s.docx'')
          (u ''nodir/out.docx''))
     = Inl (FileNotFoundError (u ''[Errno 2] No such file or directory: '' @
                               quoted (u ''nodir/out.docx'')))"
proof -
  have 1: "path_exists dir_template_world (u ''t.docx'')" "path_exists dir_template_world (u ''s.docx'')"
    "path_exists missing_dir_world (u ''t.docx'')" "path_exists missing_dir_world (u ''s.docx'')"
    by (simp_all add: path_exists_def dir_template_world_def missing_dir_world_def u_def)
  have 3: "fst (merge_chapter basic_db default_lib missing_dir_world (u ''t.docx'') (u ''s.docx'')
          (u ''nodir/out.docx''))
     = Inl (FileNotFoundError (u ''[Errno 2] No such file or directory: '' @
                               quoted (u ''nodir/out.docx'')))"
    by (simp add: missing_dir_world_def example_template_def example_source_def merge_eval
          heading_eval string_eval ratio_eval)
  from 1 dir_template_run 3 show ?thesis by (intro conjI)
qed

lemma basic_db_ok: "unicode_ok basic_db"
  unfolding unicode_ok_def
proof (intro conjI allI impI)
  fix c assume "is_digit basic_db c" then show "is_alnum basic_db c"
    by (auto simp: is_digit_def basic_db_def split: if_splits)
next
  fix c assume "is_space c \<or> is_punct c" then show "\<not> is_word basic_db c"
    by (auto simp: is_space_def is_punct_def is_word_def basic_db_def is_thai_digit_def)
next
  fix c assume "is_thai_digit c" then show "is_digit basic_db c"
    by (auto simp: is_digit_def basic_db_def)
next
  fix s t assume a: "set t \<subseteq> insert 32 (set (str_lower basic_db s))"
  have "\<forall>c \<in> set t. \<not> (65 \<le> c \<and> c \<le> 90)"
    using a by (auto simp: basic_db_def)
  then show "str_lower basic_db t = t"
    by (simp add: basic_db_def map_idI)
qed

lemma digit_not_space: "unicode_ok db \<Longrightarrow> is_digit db c \<Longrightarrow> \<not> is_space c"
  by (auto simp: unicode_ok_def is_word_def)

lemma heading_level_from_text_total:
  assumes "unicode_ok db"
  shows "\<exists>r. heading_level_from_text db t = Inr r"
proof (cases "match_numbered db (thai_to_arabic (strip t))")
  case True
  then obtain c r where s: "thai_to_arabic (strip t) = c # r" and d: "is_digit db c"
    by (auto simp: match_numbered_def split: list.splits)
  from digit_not_space[OF assms d] s have "first_token (thai_to_arabic (strip t)) \<noteq> None"
    by (simp add: first_token_def)
  then show ?thesis
    by (auto simp: heading_level_from_text_def Let_def)
next
  case False
  then show ?thesis by (auto simp: heading_level_from_text_def Let_def)
qed

lemma get_heading_level_total:
  "unicode_ok db \<Longrightarrow> \<exists>r. get_heading_level db p = Inr r"
  using heading_level_from_text_total by (auto simp: get_heading_level_def Let_def)

lemma parse_loop_total: "unicode_ok db \<Longrightarrow> \<exists>r. parse_loop db ps secs = Inr r"
proof (induction ps arbitrary: secs)
  case Nil
  then show ?case by simp
next
  case (Cons p ps)
  from get_heading_level_total[OF Cons.prems] obtain r where "get_heading_level db p = Inr r"
    by blast
  with Cons show ?case by (cases r) auto
qed

lemma merge_step_total:
  "\<exists>st'. merge_step db lib ss (build_title_index ss) t st = Inr st'"
proof -
  obtain out m k where st: "st = (out, m, k)" by (rule prod_cases3)
  show ?thesis
  proof (cases "find_best_match db (title t) (build_title_index ss)")
    case None
    then show ?thesis by (simp add: merge_step_def Let_def st)
  next
    case (Some i)
    then obtain key where "(key, i) \<in> set (build_title_index ss)"
      using find_best_match_from_index by blast
    from build_title_index_entry[OF this] have "i < length ss" by simp
    with Some show ?thesis by (simp add: merge_step_def Let_def st)
  qed
qed

lemma merge_loop_total:
  "\<exists>st'. merge_loop db lib ss (build_title_index ss) ts st = Inr st'"
proof (induction ts arbitrary: st)
  case Nil
  show ?case by (rule exI[of _ st]) simp
next
  case (Cons t ts)
  from merge_step_total obtain st1 where "merge_step db lib ss (build_title_index ss) t st = Inr st1"
    by blast
  with Cons show ?case by simp
qed

lemma splitext_append: "splitext p = (base, ext) \<Longrightarrow> base @ ext = p"
  by (auto simp: splitext_def Let_def split: if_splits)

lemma length_backup_path_of: "length (backup_path_of p) = length p + 9"
proof -
  obtain base ext where s: "splitext p = (base, ext)" by (cases "splitext p") auto
  from splitext_append[OF s] show ?thesis
    by (auto simp: backup_path_of_def s u_def)
qed

lemma length_copy2_destination: "length dst \<le> length (copy2_destination w src dst)"
  by (simp add: copy2_destination_def path_join_def)

lemma backup_destination_differs:
  "copy2_destination w p (backup_path_of p) \<noteq> p"
proof
  assume "copy2_destination w p (backup_path_of p) = p"
  then have "length (copy2_destination w p (backup_path_of p)) = length p" by simp
  with length_copy2_destination[of "backup_path_of p" w p] length_backup_path_of[of p]
  show False by simp
qed

text \<open>The backup step on a target that is a file, by what the copy meets at its destination.\<close>

lemma backup_target_file:
  assumes "files w p = Some old" "old \<noteq> Directory"
  shows "backup_target w p =
     (let dst = copy2_destination w p (backup_path_of p)
      in if files w dst = Some Directory
         then w\<lparr>stderr := stderr w @ [u ''Warning: failed to backup target: '' @
                                        u ''[Errno 21] Is a directory: '' @ quoted dst]\<rparr>
         else case copy_error w dst of
                Some e \<Rightarrow> w\<lparr>stderr := stderr w @ [u ''Warning: failed to backup target: '' @ e]\<rparr>
              | None \<Rightarrow>
                  w\<lparr>files := (files w)(dst \<mapsto> old),
                    stdout := stdout w @ [u ''Backed up existing target to: '' @ backup_path_of p]\<rparr>)"
  using assms backup_destination_differs[of w p]
  by (cases old) (auto simp: backup_target_def copy2_def path_exists_def Let_def split: option.splits)

text \<open>
  C7, as the code has it. With both input documents present, a target that is a
  file already and a save that goes through, the merge returns its statistics and the
  target holds the merged document. The backup path is the target path with
  \<open> (backup)\<close> put before the extension; the copy goes there, or, when that path is a
  directory, into it under the file name of the target. When the copy succeeds its
  destination holds what the target held before the call; when it fails the only
  other effect is a warning on standard error.
\<close>

theorem merge_chapter_backup:
  assumes "unicode_ok db"
    and "files w template_path = Some (Docx template_doc)"
    and "files w source_path = Some (Docx source_doc)"
    and "files w target_path = Some old"
    and "old \<noteq> Directory"
    and "save_error w target_path = None"
  shows "\<exists>st out w' ts ss m k base ext dst.
           merge_chapter db lib w template_path source_path target_path = (Inr st, w') \<and>
           parse_sections db template_doc = Inr ts \<and> parse_sections db source_doc = Inr ss \<and>
           merge_loop db lib ss (build_title_index ss) ts ([], 0, 0) = Inr (out, m, k) \<and>
           splitext target_path = (base, ext) \<and> target_path = base @ ext \<and>
           backup_path_of target_path = base @ u '' (backup)'' @ ext \<and>
           dst = (if files w (backup_path_of target_path) = Some Directory
                  then path_join (backup_path_of target_path) (basename target_path)
                  else backup_path_of target_path) \<and>
           dst \<noteq> target_path \<and>
           files w' target_path = Some (Docx out) \<and>
           (files w dst \<noteq> Some Directory \<and> copy_error w dst = None \<longrightarrow>
              files w' = (files w)(dst \<mapsto> old, target_path \<mapsto> Docx out) \<and>
              files w' dst = Some old \<and>
              stderr w' = stderr w) \<and>
           (files w dst = Some Directory \<longrightarrow>
              files w' = (files w)(target_path \<mapsto> Docx out) \<and>
              stderr w' = stderr w @ [u ''Warning: failed to backup target: '' @
                                      u ''[Errno 21] Is a directory: '' @ quoted dst]) \<and>
           (\<forall>e. files w dst \<noteq> Some Directory \<and> copy_error w dst = Some e \<longrightarrow>
              files w' = (files w)(target_path \<mapsto> Docx out) \<and>
              stderr w' = stderr w @ [u ''Warning: failed to backup target: '' @ e])"
proof -
  from parse_loop_total[OF assms(1)] obtain ts where ts: "parse_sections db template_doc = Inr ts"
    unfolding parse_sections_def by blast
  from parse_loop_total[OF assms(1)] obtain ss where ss: "parse_sections db source_doc = Inr ss"
    unfolding parse_sections_def by blast
  from merge_loop_total obtain st' where
    "merge_loop db lib ss (build_title_index ss) ts ([], 0, 0) = Inr st'" by blast
  then obtain out m k where
    l: "merge_loop db lib ss (build_title_index ss) ts ([], 0, 0) = Inr (out, m, k)"
    by (cases st') auto
  obtain base ext where sp: "splitext target_path = (base, ext)"
    by (cases "splitext target_path") auto
  have bp: "backup_path_of target_path = base @ u '' (backup)'' @ ext"
    by (simp add: backup_path_of_def sp)
  have tp: "target_path = base @ ext" using splitext_append[OF sp] by simp
  define dst where "dst = copy2_destination w target_path (backup_path_of target_path)"
  have dd: "dst = (if files w (backup_path_of target_path) = Some Directory
                  then path_join (backup_path_of target_path) (basename target_path)
                  else backup_path_of target_path)"
    by (simp add: dst_def copy2_destination_def)
  have ne: "dst \<noteq> target_path" unfolding dst_def by (rule backup_destination_differs)
  define w1 where "w1 = backup_target w target_path"
  have w1: "w1 = (if files w dst = Some Directory
         then w\<lparr>stderr := stderr w @ [u ''Warning: failed to backup target: '' @
                                        u ''[Errno 21] Is a directory: '' @ quoted dst]\<rparr>
         else case copy_error w dst of
                Some e \<Rightarrow> w\<lparr>stderr := stderr w @ [u ''Warning: failed to backup target: '' @ e]\<rparr>
              | None \<Rightarrow>
                  w\<lparr>files := (files w)(dst \<mapsto> old),
                    stdout := stdout w @ [u ''Backed up existing target to: '' @
                                          backup_path_of target_path]\<rparr>)"
    unfolding w1_def dst_def using backup_target_file[OF assms(4,5)] by (simp add: Let_def)
  have t1: "files w1 target_path = Some old"
    using assms(4) ne by (auto simp: w1 split: option.splits)
  have s1: "save_error w1 target_path = None"
    using assms(6) by (simp add: w1_def backup_target_save_error)
  define w' where "w' = (w1\<lparr>files := (files w1)(target_path \<mapsto> Docx out)\<rparr>)
                          \<lparr>stdout := stdout w1 @ [u ''Wrote merged Chapter 1 to: '' @ target_path]\<rparr>"
  define st where "st = \<lparr>matched_sections = m, skipped_sections = k,
                         total_template_sections = length ts\<rparr>"
  have sv: "save_document w1 out target_path = Inr (w1\<lparr>files := (files w1)(target_path \<mapsto> Docx out)\<rparr>)"
    using t1 s1 assms(5) by (simp add: save_document_def)
  have r: "merge_chapter db lib w template_path source_path target_path = (Inr st, w')"
    using assms(2,3) ts ss l sv
    by (simp add: merge_chapter_def path_exists_def open_document_def Let_def
                  w1_def[symmetric] w'_def st_def)
  have f: "files w' target_path = Some (Docx out)" by (simp add: w'_def)
  have ok: "files w dst \<noteq> Some Directory \<and> copy_error w dst = None \<longrightarrow>
              files w' = (files w)(dst \<mapsto> old, target_path \<mapsto> Docx out) \<and>
              files w' dst = Some old \<and> stderr w' = stderr w"
    using ne by (auto simp: w'_def w1)
  have dir: "files w dst = Some Directory \<longrightarrow>
              files w' = (files w)(target_path \<mapsto> Docx out) \<and>
              stderr w' = stderr w @ [u ''Warning: failed to backup target: '' @
                                      u ''[Errno 21] Is a directory: '' @ quoted dst]"
    by (auto simp: w'_def w1)
  have bad: "\<forall>e. files w dst \<noteq> Some Directory \<and> copy_error w dst = Some e \<longrightarrow>
              files w' = (files w)(target_path \<mapsto> Docx out) \<and>
              stderr w' = stderr w @ [u ''Warning: failed to backup target: '' @ e]"
    by (auto simp: w'_def w1)
  show ?thesis
    apply (rule exI[of _ st], rule exI[of _ out], rule exI[of _ w'], rule exI[of _ ts],
           rule exI[of _ ss], rule exI[of _ m], rule exI[of _ k], rule exI[of _ base],
           rule exI[of _ ext], rule exI[of _ dst])
    using r ts ss l sp tp bp dd ne f ok dir bad by (intro conjI)
qed

lemma backup_path_example: "backup_path_of (u ''out.docx'') = u ''out (backup).docx''"
  by (simp add: backup_path_of_def splitext_def rfind_def u_def Let_def)

lemma backup_inside_example:
  "path_join (u ''out (backup).docx'') (basename (u ''out.docx'')) = u ''out (backup).docx/out.docx''"
  by (simp add: path_join_def basename_def rfind_def u_def)

theorem merge_chapter_backup_witness:
  "unicode_ok basic_db \<and>
   files rerun_world (u ''out.docx'') = Some NotDocx \<and>
   backup_path_of (u ''out.docx'') = u ''out (backup).docx'' \<and>
   copy_error rerun_world (u ''out (backup).docx'') = Some (u ''Permission denied'') \<and>
   stderr (snd (merge_chapter basic_db default_lib rerun_world (u ''t.docx'') (u ''s.docx'') (u ''out.docx'')))
     = [u ''Warning: failed to backup target: Permission denied''] \<and>
   files (snd (merge_chapter basic_db default_lib rerun_world (u ''t.docx'') (u ''s.docx'') (u ''out.docx'')))
     (u ''out (backup).docx'') = None \<and>
   files (snd (merge_chapter basic_db default_lib rerun_world (u ''t.docx'') (u ''s.docx'') (u ''out.docx'')))
     (u ''out.docx'') \<noteq> Some NotDocx \<and>
   copy_error rerun_ok_world (u ''out (backup).docx'') = None \<and>
   files (snd (merge_chapter basic_db default_lib rerun_ok_world (u ''t.docx'') (u ''s.docx'') (u ''out.docx'')))
     (u ''out (backup).docx'') = Some NotDocx \<and>
   files (snd (merge_chapter basic_db default_lib rerun_ok_world (u ''t.docx'') (u ''s.docx'') (u ''out.docx'')))
     (u ''out.docx'') \<noteq> Some NotDocx \<and>
   files nested_dir_world (u ''out (backup).docx'') = Some Directory \<and>
   files nested_dir_world (u ''out (backup).docx/out.docx'') = Some Directory \<and>
   stderr (snd (merge_chapter basic_db default_lib nested_dir_world (u ''t.docx'') (u ''s.docx'') (u ''out.docx'')))
     = [u ''Warning: failed to backup target: [Errno 21] Is a directory: '' @
        quoted (u ''out (backup).docx/out.docx'')] \<and>
   files (snd (merge_chapter basic_db default_lib nested_dir_world (u ''t.docx'') (u ''s.docx'') (u ''out.docx'')))
     (u ''out.docx'') \<noteq> Some NotDocx"
proof -
  let ?run = "merge_chapter basic_db default_lib rerun_world (u ''t.docx'') (u ''s.docx'') (u ''out.docx'')"
  let ?run2 = "merge_chapter basic_db default_lib rerun_ok_world (u ''t.docx'') (u ''s.docx'') (u ''out.docx'')"
  let ?run3 = "merge_chapter basic_db default_lib nested_dir_world (u ''t.docx'') (u ''s.docx'') (u ''out.docx'')"
  have t: "files rerun_world (u ''t.docx'') = Some (Docx example_template)"
    and s: "files rerun_world (u ''s.docx'') = Some (Docx example_source)"
    and o: "files rerun_world (u ''out.docx'') = Some NotDocx"
    and b: "files rerun_world (u ''out (backup).docx'') = None"
    and c: "copy_error rerun_world (u ''out (backup).docx'') = Some (u ''Permission denied'')"
    and sf: "save_error rerun_world (u ''out.docx'') = None"
    and e: "stderr rerun_world = []"
    by (simp_all add: rerun_world_def u_def)
  have t2: "files rerun_ok_world (u ''t.docx'') = Some (Docx example_template)"
    and s2: "files rerun_ok_world (u ''s.docx'') = Some (Docx example_source)"
    and o2: "files rerun_ok_world (u ''out.docx'') = Some NotDocx"
    and b2: "files rerun_ok_world (u ''out (backup).docx'') = None"
    and c2: "copy_error rerun_ok_world (u ''out (backup).docx'') = None"
    and sf2: "save_error rerun_ok_world (u ''out.docx'') = None"
    by (simp_all add: rerun_ok_world_def rerun_world_def u_def)
  have t3: "files nested_dir_world (u ''t.docx'') = Some (Docx example_template)"
    and s3: "files nested_dir_world (u ''s.docx'') = Some (Docx example_source)"
    and o3: "files nested_dir_world (u ''out.docx'') = Some NotDocx"
    and b3: "files nested_dir_world (u ''out (backup).docx'') = Some Directory"
    and d3: "files nested_dir_world (u ''out (backup).docx/out.docx'') = Some Directory"
    and sf3: "save_error nested_dir_world (u ''out.docx'') = None"
    and e3: "stderr nested_dir_world = []"
    by (simp_all add: nested_dir_world_def backup_dir_world_def u_def)
  have nd: "NotDocx \<noteq> Directory" by simp
  from merge_chapter_backup[OF basic_db_ok t s o nd sf, of default_lib]
  obtain out w' where 1: "snd ?run = w'"
    and 2: "files w' (u ''out.docx'') = Some (Docx out)"
    and 3: "files w' = (files rerun_world)(u ''out.docx'' \<mapsto> Docx out)"
    and 4: "stderr w' = stderr rerun_world @ [u ''Warning: failed to backup target: '' @ u ''Permission denied'']"
    unfolding backup_path_example using b c by fastforce
  from merge_chapter_backup[OF basic_db_ok t2 s2 o2 nd sf2, of default_lib]
  obtain out2 w2 where 5: "snd ?run2 = w2"
    and 6: "files w2 (u ''out.docx'') = Some (Docx out2)"
    and 7: "files w2 (u ''out (backup).docx'') = Some NotDocx"
    unfolding backup_path_example using b2 c2 by fastforce
  from merge_chapter_backup[OF basic_db_ok t3 s3 o3 nd sf3, of default_lib]
  obtain st3 out3 w3 dst where r3: "?run3 = (Inr st3, w3)"
    and dst: "dst = (if files nested_dir_world (backup_path_of (u ''out.docx'')) = Some Directory
                  then path_join (backup_path_of (u ''out.docx'')) (basename (u ''out.docx''))
                  else backup_path_of (u ''out.docx''))"
    and 11: "files w3 (u ''out.docx'') = Some (Docx out3)"
    and dir: "files nested_dir_world dst = Some Directory \<longrightarrow>
              files w3 = (files nested_dir_world)(u ''out.docx'' \<mapsto> Docx out3) \<and>
              stderr w3 = stderr nested_dir_world @ [u ''Warning: failed to backup target: '' @
                                      u ''[Errno 21] Is a directory: '' @ quoted dst]"
    by blast
  have dd: "dst = u ''out (backup).docx/out.docx''"
    unfolding dst backup_path_example backup_inside_example using b3 by simp
  have 10: "snd ?run3 = w3" unfolding r3 by simp
  from dir d3 have 12: "stderr w3 = stderr nested_dir_world @
               [u ''Warning: failed to backup target: '' @ u ''[Errno 21] Is a directory: '' @
                quoted (u ''out (backup).docx/out.docx'')]"
    unfolding dd by blast
  have 8: "files (snd ?run) (u ''out (backup).docx'') = None"
    using 1 3 b by (simp add: u_def)
  have 9: "stderr (snd ?run) = [u ''Warning: failed to backup target: Permission denied'']"
    using 1 4 e by (simp add: u_def)
  have 13: "stderr (snd ?run3) = [u ''Warning: failed to backup target: [Errno 21] Is a directory: '' @
        quoted (u ''out (backup).docx/out.docx'')]"
    using 10 12 e3 by (simp add: u_def)
  have a1: "files (snd ?run) (u ''out.docx'') \<noteq> Some NotDocx" using 1 2 by simp
  have a2: "files (snd ?run2) (u ''out (backup).docx'') = Some NotDocx" using 5 7 by simp
  have a3: "files (snd ?run2) (u ''out.docx'') \<noteq> Some NotDocx" using 5 6 by simp
  have a4: "files (snd ?run3) (u ''out.docx'') \<noteq> Some NotDocx" using 10 11 by simp
  from basic_db_ok o backup_path_example c 9 8 a1 c2 a2 a3 b3 d3 13 a4 show ?thesis
    by (intro conjI)
qed

text \<open>
  C7 as stated fails where the backup path is a directory already: the copy succeeds
  without a warning, but it lands inside that directory, and the backup path itself
  does not hold the old content of the target.
\<close>

theorem merge_chapter_backup_counterexample:
  "files backup_dir_world (u ''out.docx'') = Some NotDocx \<and>
   backup_path_of (u ''out.docx'') = u ''out (backup).docx'' \<and>
   fst (merge_chapter basic_db default_lib backup_dir_world (u ''t.docx'') (u ''s.docx'') (u ''out.docx''))
     = Inr \<lparr>matched_sections = 2, skipped_sections = 1, total_template_sections = 3\<rparr> \<and>
   stderr (snd (merge_chapter basic_db default_lib backup_dir_world (u ''t.docx'') (u ''s.docx'') (u ''out.docx'')))
     = [] \<and>
   files (snd (merge_chapter basic_db default_lib backup_dir_world (u ''t.docx'') (u ''s.docx'') (u ''out.docx'')))
     (u ''out (backup).docx'') = Some Directory \<and>
   files (snd (merge_chapter basic_db default_lib backup_dir_world (u ''t.docx'') (u ''s.docx'') (u ''out.docx'')))
     (u ''out (backup).docx/out.docx'') = Some NotDocx"
proof -
  let ?run = "merge_chapter basic_db default_lib backup_dir_world (u ''t.docx'') (u ''s.docx'') (u ''out.docx'')"
  have o: "files backup_dir_world (u ''out.docx'') = Some NotDocx"
    by (simp add: backup_dir_world_def u_def)
  have r: "?run = (fst ?run, snd ?run)" by simp
  have 1: "fst ?run = Inr \<lparr>matched_sections = 2, skipped_sections = 1, total_template_sections = 3\<rparr>"
    by (simp add: backup_dir_world_def example_template_def example_source_def merge_eval
          heading_eval string_eval ratio_eval)
  have 2: "stderr (snd ?run) = []"
    by (simp add: backup_dir_world_def example_template_def example_source_def merge_eval
          heading_eval string_eval ratio_eval)
  have 3: "files (snd ?run) (u ''out (backup).docx'') = Some Directory"
    by (simp add: backup_dir_world_def example_template_def example_source_def merge_eval
          heading_eval string_eval ratio_eval)
  have 4: "files (snd ?run) (u ''out (backup).docx/out.docx'') = Some NotDocx"
    by (simp add: backup_dir_world_def example_template_def example_source_def merge_eval
          heading_eval string_eval ratio_eval)
  from o backup_path_example 1 2 3 4 show ?thesis by (intro conjI)
qed

text \<open>
  C8, as the code has it. A template section without a match adds exactly one
  paragraph, which carries the title as parsed (not normalized), adds no body paragraph,
  leaves \<open>matched\<close> alone, adds one to \<open>skipped\<close> and raises nothing. The paragraph is the
  heading of the recorded level when \<open>add_heading\<close> takes the level; when it does not,
  the paragraph has the style \<open>Heading N\<close> if the output document has that style and
  no style otherwise.
\<close>

theorem merge_step_unmatched:
  assumes "find_best_match db (title t_sec) source_index = None"
  shows "merge_step db lib source_sections source_index t_sec (out_doc, matched, skipped) =
           Inr (out_doc @ [emit_heading lib (title t_sec) (level t_sec)], matched, skipped + 1) \<and>
         p_text (emit_heading lib (title t_sec) (level t_sec)) = title t_sec \<and>
         (heading_accepted lib (level t_sec) \<longrightarrow>
            emit_heading lib (title t_sec) (level t_sec) = add_heading (title t_sec) (level t_sec)) \<and>
         (\<not> heading_accepted lib (level t_sec) \<and>
          has_style lib (u ''Heading '' @ str_of_nat (level t_sec)) \<longrightarrow>
            p_style (emit_heading lib (title t_sec) (level t_sec)) =
              Some (u ''Heading '' @ str_of_nat (level t_sec))) \<and>
         (\<not> heading_accepted lib (level t_sec) \<and>
          \<not> has_style lib (u ''Heading '' @ str_of_nat (level t_sec)) \<longrightarrow>
            p_style (emit_heading lib (title t_sec) (level t_sec)) = None)"
  using assms
  by (simp add: merge_step_def emit_heading_def add_heading_def add_paragraph_with_style_def
                Let_def u_def)

theorem merge_step_unmatched_witness:
  "find_best_match basic_db (title scope_section) example_index = None \<and>
   heading_accepted default_lib (level scope_section) \<and>
   merge_step basic_db default_lib [] example_index scope_section ([], 0, 0) =
     Inr ([add_heading (u ''Scope'') 2], 0, 1) \<and>
   p_style (add_heading (u ''Scope'') 2) = Some (u ''Heading 2'')"
proof -
  have h: "find_best_match basic_db (title scope_section) example_index = None"
    by (simp add: scope_section_def example_index_def find_best_match_def string_eval ratio_eval)
  have a: "heading_accepted default_lib (level scope_section)"
    by (simp add: default_lib_def scope_section_def)
  have s: "p_style (add_heading (u ''Scope'') 2) = Some (u ''Heading 2'')"
    by (simp add: add_heading_def heading_style_def str_of_nat.simps u_def)
  have t: "title scope_section = u ''Scope''" "level scope_section = 2"
    by (simp_all add: scope_section_def)
  from merge_step_unmatched[OF h, of default_lib "[]" "[]" 0 0] a
  have "merge_step basic_db default_lib [] example_index scope_section ([], 0, 0) =
     Inr ([add_heading (u ''Scope'') 2], 0, 1)"
    by (simp add: t)
  with h a s show ?thesis by blast
qed

text \<open>
  C8 as stated fails where the library refuses the level: a heading of ten numeric
  components parses to level 10, \<open>add_heading\<close> takes the levels 0 to 9 only, the
  output document has no style \<open>Heading 10\<close>, and the title is added as a paragraph
  without a heading style.
\<close>

theorem merge_step_unmatched_counterexample:
  "parse_sections basic_db [deep_par] = Inr [deep_section] \<and>
   find_best_match basic_db (title deep_section) [] = None \<and>
   merge_step basic_db default_lib [] [] deep_section ([], 0, 0) =
     Inr ([\<lparr>p_style = None, p_text = title deep_section,
            p_runs = [plain_run (title deep_section)]\<rparr>], 0, 1) \<and>
   merge_step basic_db default_lib [] [] deep_section ([], 0, 0) \<noteq>
     Inr ([add_heading (title deep_section) (level deep_section)], 0, 1)"
proof -
  have p: "parse_sections basic_db [deep_par] = Inr [deep_section]"
    by (simp add: parse_sections_def deep_par_def deep_section_def plain_run_def
                  heading_eval string_eval)
  have f: "find_best_match basic_db (title deep_section) [] = None"
    by (simp add: find_best_match_def)
  have m: "merge_step basic_db default_lib [] [] deep_section ([], 0, 0) =
     Inr ([\<lparr>p_style = None, p_text = title deep_section,
            p_runs = [plain_run (title deep_section)]\<rparr>], 0, 1)"
    by (simp add: merge_step_def find_best_match_def emit_heading_def
                  add_paragraph_with_style_def default_lib_def default_style_names_def
                  default_style_aliases_def default_style_ids_def deep_section_def
                  str_of_nat.simps u_def Let_def)
  have n: "merge_step basic_db default_lib [] [] deep_section ([], 0, 0) \<noteq>
     Inr ([add_heading (title deep_section) (level deep_section)], 0, 1)"
    unfolding m by (simp add: add_heading_def)
  from p f m n show ?thesis by blast
qed

section \<open>Normalization is idempotent\<close>

lemma digit_word: "unicode_ok db \<Longrightarrow> is_digit db c \<Longrightarrow> is_word db c"
  by (auto simp: unicode_ok_def is_word_def)

lemma space_not_word: "unicode_ok db \<Longrightarrow> is_space c \<Longrightarrow> \<not> is_word db c"
  by (auto simp: unicode_ok_def)

lemma punct_not_word: "unicode_ok db \<Longrightarrow> is_punct c \<Longrightarrow> \<not> is_word db c"
  by (auto simp: unicode_ok_def)

lemma space_not_digit: "unicode_ok db \<Longrightarrow> is_space c \<Longrightarrow> \<not> is_digit db c"
  using digit_word space_not_word by blast

lemma punct_not_digit: "unicode_ok db \<Longrightarrow> is_punct c \<Longrightarrow> \<not> is_digit db c"
  using digit_word punct_not_word by blast

lemma word_boundary_iff: "word_boundary db prev c \<longleftrightarrow> prev_word db prev \<noteq> is_word db c"
  by (cases prev) (auto simp: word_boundary_def)

subsection \<open>Where a match ends\<close>

lemma eat_while_not_starts: "\<not> starts_digit db (snd (eat_while (is_digit db) cur))"
  by (induction "is_digit db" cur rule: eat_while.induct) auto

lemma eat_groups_not_starts:
  "\<not> starts_digit db (snd cur) \<Longrightarrow> \<not> starts_digit db (snd (eat_groups db cur))"
proof (induction db cur rule: eat_groups.induct)
  case (3 db prev c d s)
  show ?case
  proof (cases "(c = 46 \<or> c = 45) \<and> is_digit db d")
    case True
    with 3(1)[OF True eat_while_not_starts] show ?thesis by simp
  next
    case False
    with 3(2) show ?thesis by auto
  qed
qed simp_all

lemma eat_dot_closed:
  assumes "unicode_ok db" "\<not> starts_digit db (snd cur)"
  shows "match_closed db (eat_dot cur)"
proof -
  have "is_punct 46" by (simp add: is_punct_def)
  from punct_not_word[OF assms(1) this] assms(2) show ?thesis
    by (auto simp: eat_dot_def match_closed_def split: prod.splits list.splits)
qed

lemma eat_space_closed:
  assumes "unicode_ok db"
  shows "match_closed db cur \<Longrightarrow> match_closed db (eat_while is_space cur)"
proof (induction is_space cur rule: eat_while.induct)
  case (1 prev)
  then show ?case by simp
next
  case (2 prev c s)
  show ?case
  proof (cases "is_space c")
    case True
    with space_not_word[OF assms] have "match_closed db (Some c, s)"
      by (simp add: match_closed_def)
    with 2(1)[OF True] True show ?thesis by simp
  next
    case False
    with 2(2) show ?thesis by simp
  qed
qed

lemma num_match_end_closed:
  assumes "unicode_ok db"
  shows "match_closed db (num_match_end db cur)"
  unfolding num_match_end_def
  by (intro eat_space_closed[OF assms] eat_dot_closed[OF assms] eat_groups_not_starts
            eat_while_not_starts)

subsection \<open>The text left by the substitution\<close>

lemma sub_numbers_not_starts:
  "unicode_ok db \<Longrightarrow> match_closed db cur \<Longrightarrow> \<not> starts_digit db (sub_numbers db cur)"
proof (induction db cur rule: sub_numbers.induct)
  case (1 db prev)
  then show ?case by simp
next
  case (2 db prev c s)
  note ok = \<open>unicode_ok db\<close>
  show ?case
  proof (cases "is_digit db c")
    case True
    with 2(4) have "\<not> prev_word db prev" by (simp add: match_closed_def)
    with True digit_word[OF ok True] have b: "is_digit db c \<and> word_boundary db prev c"
      by (simp add: word_boundary_iff)
    from 2(1)[OF b ok num_match_end_closed[OF ok]] b show ?thesis by simp
  next
    case False
    then show ?thesis by simp
  qed
qed

lemma guarded_any: "\<not> starts_digit db s \<Longrightarrow> guarded db pw s \<Longrightarrow> guarded db pw' s"
  by (cases s) auto

lemma sub_numbers_guarded:
  "unicode_ok db \<Longrightarrow> guarded db (prev_word db (fst cur)) (sub_numbers db cur)"
proof (induction db cur rule: sub_numbers.induct)
  case (1 db prev)
  then show ?case by simp
next
  case (2 db prev c s)
  note ok = \<open>unicode_ok db\<close>
  show ?case
  proof (cases "is_digit db c \<and> word_boundary db prev c")
    case True
    have n: "\<not> starts_digit db (sub_numbers db (num_match_end db (Some c, s)))"
      by (rule sub_numbers_not_starts[OF ok num_match_end_closed[OF ok]])
    from guarded_any[OF n 2(1)[OF True ok]] True show ?thesis by simp
  next
    case False
    have "is_digit db c \<longrightarrow> prev_word db prev"
      using False digit_word[OF ok] by (auto simp: word_boundary_iff)
    with 2(2)[OF False ok] False show ?thesis by auto
  qed
qed

lemma sub_numbers_fixed:
  assumes "unicode_ok db"
  shows "guarded db (prev_word db prev) s \<Longrightarrow> sub_numbers db (prev, s) = s"
proof (induction s arbitrary: prev)
  case Nil
  then show ?case by simp
next
  case (Cons c s)
  have nb: "\<not> (is_digit db c \<and> word_boundary db prev c)"
    using Cons.prems digit_word[OF assms] by (auto simp: word_boundary_iff)
  from Cons.prems have "guarded db (prev_word db (Some c)) s" by simp
  from Cons.IH[OF this] nb show ?case by auto
qed

lemma set_eat_while: "set (snd (eat_while P cur)) \<subseteq> set (snd cur)"
  by (induction P cur rule: eat_while.induct) auto

lemma set_eat_groups: "set (snd (eat_groups db cur)) \<subseteq> set (snd cur)"
proof (induction db cur rule: eat_groups.induct)
  case (3 db prev c d s)
  have "set (snd (eat_while (is_digit db) (Some d, s))) \<subseteq> set s"
    using set_eat_while[of "is_digit db" "(Some d, s)"] by simp
  with 3 show ?case by auto
qed simp_all

lemma set_eat_dot: "set (snd (eat_dot cur)) \<subseteq> set (snd cur)"
  by (auto simp: eat_dot_def split: prod.splits list.splits if_splits)

lemma set_num_match_end: "set (snd (num_match_end db cur)) \<subseteq> set (snd cur)"
  unfolding num_match_end_def
  using set_eat_while set_eat_groups set_eat_dot by (meson subset_trans)

lemma set_sub_numbers: "set (sub_numbers db cur) \<subseteq> set (snd cur)"
proof (induction db cur rule: sub_numbers.induct)
  case (1 db prev)
  then show ?case by simp
next
  case (2 db prev c s)
  have "set (snd (num_match_end db (Some c, s))) \<subseteq> set s"
    using set_num_match_end[of db "(Some c, s)"] by simp
  with 2 show ?case by auto
qed


subsection \<open>The later steps keep the digits guarded\<close>

lemma guarded_filter_thai:
  assumes "unicode_ok db"
  shows "guarded db pw s \<Longrightarrow> guarded db pw (filter (\<lambda>c. \<not> is_thai_digit c) s)"
proof (induction s arbitrary: pw)
  case Nil
  then show ?case by simp
next
  case (Cons c s)
  show ?case
  proof (cases "is_thai_digit c")
    case True
    with assms have d: "is_digit db c" by (simp add: unicode_ok_def)
    with Cons.prems digit_word[OF assms d] have "pw" "guarded db True s" by auto
    with Cons.IH[of True] True show ?thesis by simp
  next
    case False
    with Cons show ?thesis by simp
  qed
qed

lemma blank_is_space: "is_space 32"
  by (simp add: is_space_def)

lemma guarded_map_punct:
  assumes "unicode_ok db"
  shows "guarded db pw s \<Longrightarrow> guarded db pw (map (\<lambda>c. if is_punct c then 32 else c) s)"
proof (induction s arbitrary: pw)
  case Nil
  then show ?case by simp
next
  case (Cons c s)
  show ?case
  proof (cases "is_punct c")
    case True
    from Cons.prems punct_not_word[OF assms True] have "guarded db False s" by simp
    from Cons.IH[OF this] True space_not_word[OF assms blank_is_space]
      space_not_digit[OF assms blank_is_space]
    show ?thesis by simp
  next
    case False
    with Cons show ?thesis by simp
  qed
qed

lemma guarded_dropWhile_space:
  assumes "unicode_ok db"
  shows "guarded db False s \<Longrightarrow> guarded db False (dropWhile is_space s)"
proof (induction s)
  case Nil
  then show ?case by simp
next
  case (Cons c s)
  then show ?case using space_not_word[OF assms, of c] by auto
qed

lemma guarded_collapse_ws:
  assumes "unicode_ok db"
  shows "guarded db pw s \<Longrightarrow> guarded db pw (collapse_ws s)"
proof (induction s arbitrary: pw rule: collapse_ws.induct)
  case 1
  then show ?case by simp
next
  case (2 c s)
  show ?case
  proof (cases "is_space c")
    case True
    from "2.prems" space_not_word[OF assms True] have "guarded db False s" by simp
    from guarded_dropWhile_space[OF assms this]
    have "guarded db False (collapse_ws (dropWhile is_space s))" by (rule "2.IH"(1)[OF True])
    with True space_not_word[OF assms blank_is_space] space_not_digit[OF assms blank_is_space]
    show ?thesis by simp
  next
    case False
    with 2 show ?thesis by simp
  qed
qed

lemma guarded_prefix: "guarded db pw (xs @ ys) \<Longrightarrow> guarded db pw xs"
  by (induction xs arbitrary: pw) auto

lemma strip_prefix: "dropWhile is_space s = strip s @ rev (takeWhile is_space (rev (dropWhile is_space s)))"
proof -
  let ?d = "rev (dropWhile is_space s)"
  have "rev (dropWhile is_space ?d) @ rev (takeWhile is_space ?d) =
        rev (takeWhile is_space ?d @ dropWhile is_space ?d)"
    by (simp only: rev_append)
  also have "\<dots> = rev ?d" by (simp only: takeWhile_dropWhile_id)
  also have "\<dots> = dropWhile is_space s" by (simp only: rev_rev_ident)
  finally show ?thesis by (simp only: strip_def)
qed

lemma guarded_strip:
  assumes "unicode_ok db" "guarded db False s"
  shows "guarded db False (strip s)"
proof -
  from guarded_dropWhile_space[OF assms] have "guarded db False (dropWhile is_space s)" .
  then have "guarded db False (strip s @ rev (takeWhile is_space (rev (dropWhile is_space s))))"
    using strip_prefix[of s] by simp
  then show ?thesis by (rule guarded_prefix)
qed

subsection \<open>Collapsed white space\<close>

lemma dropWhile_not_starts_space: "\<not> starts_space (dropWhile is_space s)"
  by (induction s) auto

lemma collapse_ws_starts: "starts_space (collapse_ws s) = starts_space s"
  by (cases s) (auto simp: blank_is_space)

lemma collapsed_collapse_ws: "collapsed (collapse_ws s)"
proof (induction s rule: collapse_ws.induct)
  case 1
  then show ?case by simp
next
  case (2 c s)
  show ?case
  proof (cases "is_space c")
    case True
    have "\<not> starts_space (collapse_ws (dropWhile is_space s))"
      by (simp add: collapse_ws_starts dropWhile_not_starts_space)
    with "2.IH"(1)[OF True] True show ?thesis by simp
  next
    case False
    with 2 show ?thesis by simp
  qed
qed

lemma dropWhile_space_id: "\<not> starts_space s \<Longrightarrow> dropWhile is_space s = s"
  by (cases s) auto

lemma collapse_ws_fixed: "collapsed s \<Longrightarrow> collapse_ws s = s"
  by (induction s) (auto simp: dropWhile_space_id)

lemma collapsed_dropWhile: "collapsed s \<Longrightarrow> collapsed (dropWhile P s)"
  by (induction s) auto

lemma starts_space_prefix: "starts_space xs \<Longrightarrow> starts_space (xs @ ys)"
  by (cases xs) auto

lemma collapsed_prefix: "collapsed (xs @ ys) \<Longrightarrow> collapsed xs"
  by (induction xs) (auto dest: starts_space_prefix)

lemma collapsed_strip:
  assumes "collapsed s"
  shows "collapsed (strip s)"
proof -
  from collapsed_dropWhile[OF assms] have "collapsed (dropWhile is_space s)" .
  then have "collapsed (strip s @ rev (takeWhile is_space (rev (dropWhile is_space s))))"
    using strip_prefix[of s] by simp
  then show ?thesis by (rule collapsed_prefix)
qed

subsection \<open>Stripping twice\<close>

lemma strip_no_lead: "\<not> starts_space (strip s)"
proof (cases "strip s")
  case Nil
  then show ?thesis by simp
next
  case (Cons c r)
  with strip_prefix[of s] have "dropWhile is_space s = c # r @ rev (takeWhile is_space (rev (dropWhile is_space s)))"
    by simp
  with dropWhile_not_starts_space[of s] have "\<not> is_space c"
    by (metis starts_space.simps(2))
  with Cons show ?thesis by simp
qed

lemma strip_no_trail: "\<not> starts_space (rev (strip s))"
  by (simp add: strip_def dropWhile_not_starts_space)

lemma strip_fixed:
  assumes "\<not> starts_space t" "\<not> starts_space (rev t)"
  shows "strip t = t"
  using assms by (simp add: strip_def dropWhile_space_id)

lemma strip_strip: "strip (strip s) = strip s"
  by (rule strip_fixed[OF strip_no_lead strip_no_trail])

subsection \<open>The characters of a normalized title\<close>

lemma set_collapse_ws: "set (collapse_ws s) \<subseteq> insert 32 (set s)"
proof (induction s rule: collapse_ws.induct)
  case 1
  then show ?case by simp
next
  case (2 c s)
  have "set (dropWhile is_space s) \<subseteq> set s" by (auto dest: set_dropWhileD)
  with 2 show ?case by (cases "is_space c") auto
qed

lemma set_strip: "set (strip s) \<subseteq> set s"
  by (auto simp: strip_def dest!: set_dropWhileD)

lemma normalize_title_chars:
  "set (normalize_title db s) \<subseteq>
     insert 32 {c \<in> set (str_lower db (strip s)). \<not> is_thai_digit c \<and> \<not> is_punct c}"
proof -
  let ?t2 = "str_lower db (strip s)"
  let ?t3 = "sub_numbers db (None, ?t2)"
  let ?t4 = "filter (\<lambda>c. \<not> is_thai_digit c) ?t3"
  let ?t5 = "map (\<lambda>c. if is_punct c then 32 else c) ?t4"
  have 3: "set ?t3 \<subseteq> set ?t2" using set_sub_numbers[of db "(None, ?t2)"] by simp
  have 5: "set ?t5 \<subseteq> insert 32 {c \<in> set ?t2. \<not> is_thai_digit c \<and> \<not> is_punct c}"
    using 3 by auto
  have "set (normalize_title db s) \<subseteq> insert 32 (set ?t5)"
    using set_strip[of "collapse_ws ?t5"] set_collapse_ws[of ?t5]
    by (auto simp: normalize_title_def Let_def)
  with 5 show ?thesis by auto
qed

lemma normalize_title_guarded:
  assumes "unicode_ok db"
  shows "guarded db False (normalize_title db s)"
proof -
  have "guarded db (prev_word db (fst (None, str_lower db (strip s))))
          (sub_numbers db (None, str_lower db (strip s)))"
    by (rule sub_numbers_guarded[OF assms])
  then have "guarded db False (sub_numbers db (None, str_lower db (strip s)))" by simp
  then show ?thesis
    unfolding normalize_title_def Let_def
    by (intro guarded_strip[OF assms] guarded_collapse_ws[OF assms] guarded_map_punct[OF assms]
              guarded_filter_thai[OF assms])
qed

lemma normalize_title_collapsed: "collapsed (normalize_title db s)"
  unfolding normalize_title_def Let_def by (intro collapsed_strip collapsed_collapse_ws)

lemma normalize_title_stripped: "strip (normalize_title db s) = normalize_title db s"
  unfolding normalize_title_def Let_def by (rule strip_strip)

text \<open>
  C3. Normalizing a normalized title changes nothing, for every string and every
  character database that is well-formed in the sense of \<open>unicode_ok\<close>.
\<close>

theorem normalize_title_idempotent:
  assumes "unicode_ok db"
  shows "normalize_title db (normalize_title db s) = normalize_title db s"
proof -
  let ?n = "normalize_title db s"
  have ch: "set ?n \<subseteq> insert 32 {c \<in> set (str_lower db (strip s)). \<not> is_thai_digit c \<and> \<not> is_punct c}"
    by (rule normalize_title_chars)
  have b: "\<not> is_thai_digit 32" "\<not> is_punct 32"
    by (simp_all add: is_thai_digit_def is_punct_def)
  have 1: "strip ?n = ?n" by (rule normalize_title_stripped)
  have "set ?n \<subseteq> insert 32 (set (str_lower db (strip s)))" using ch by auto
  with assms have 2: "str_lower db ?n = ?n" unfolding unicode_ok_def by blast
  have 3: "sub_numbers db (None, ?n) = ?n"
    using sub_numbers_fixed[OF assms, of None ?n] normalize_title_guarded[OF assms, of s] by simp
  have 4: "filter (\<lambda>c. \<not> is_thai_digit c) ?n = ?n"
    using ch b by (intro filter_True) auto
  have 5: "map (\<lambda>c. if is_punct c then 32 else c) ?n = ?n"
    using ch b by (intro map_idI) auto
  have 6: "collapse_ws ?n = ?n"
    by (rule collapse_ws_fixed[OF normalize_title_collapsed])
  have "normalize_title db ?n =
        strip (collapse_ws (map (\<lambda>c. if is_punct c then 32 else c)
          (filter (\<lambda>c. \<not> is_thai_digit c) (sub_numbers db (None, str_lower db (strip ?n))))))"
    by (simp add: normalize_title_def Let_def)
  also have "\<dots> = ?n" by (simp only: 1 2 3 4 5 6)
  finally show ?thesis .
qed


theorem normalize_title_idempotent_witness:
  "unicode_ok basic_db \<and>
   normalize_title basic_db (u ''  1.1 Background: The (Story) 12a '') = u ''background the story a'' \<and>
   normalize_title basic_db (u ''background the story a'') = u ''background the story a''"
proof -
  have e: "normalize_title basic_db (u ''  1.1 Background: The (Story) 12a '') = u ''background the story a''"
    by (simp add: string_eval)
  from normalize_title_idempotent[OF basic_db_ok, of "u ''  1.1 Background: The (Story) 12a ''"]
  have "normalize_title basic_db (u ''background the story a'') = u ''background the story a''"
    unfolding e .
  with basic_db_ok e show ?thesis by blast
qed

section \<open>Heading levels\<close>

lemma not_digit_newline: "unicode_ok db \<Longrightarrow> \<not> is_digit db 10"
  by (rule space_not_digit) (simp_all add: is_space_def)

lemma takeWhile_rev_pre:
  "pre = [] \<or> \<not> P (last pre) \<Longrightarrow> takeWhile P (rev pre) = []"
  by (cases pre rule: rev_cases) auto

lemma trailing_digits_append:
  assumes ok: "unicode_ok db"
    and ds: "ds \<noteq> []" "list_all (is_digit db) ds"
    and pre: "pre = [] \<or> \<not> is_digit db (last pre)"
    and nl: "nl = [] \<or> nl = [10]"
  shows "trailing_digits db (pre @ ds @ nl) = ds"
proof -
  have l: "is_digit db (last ds)" using ds by (simp add: list_all_iff)
  with not_digit_newline[OF ok] have l10: "last ds \<noteq> 10" by auto
  have body: "(if pre @ ds @ nl \<noteq> [] \<and> last (pre @ ds @ nl) = 10 then butlast (pre @ ds @ nl)
               else pre @ ds @ nl) = pre @ ds"
    using nl ds(1) l10 by (auto simp: butlast_append)
  have "takeWhile (is_digit db) (rev ds @ rev pre) = rev ds @ takeWhile (is_digit db) (rev pre)"
    using ds(2) by (intro takeWhile_append2) (simp add: list_all_iff)
  also have "\<dots> = rev ds" using takeWhile_rev_pre[where P="is_digit db", OF pre] by simp
  finally have "rev (takeWhile (is_digit db) (rev (pre @ ds))) = ds" by simp
  with body show ?thesis by (simp add: trailing_digits_def Let_def del: append_assoc)
qed

lemma first_digits_append:
  assumes ds: "ds \<noteq> []" "list_all (is_digit db) ds"
    and pre: "list_all (\<lambda>c. \<not> is_digit db c) pre"
    and post: "post = [] \<or> \<not> is_digit db (hd post)"
  shows "first_digits db (pre @ ds @ post) = ds"
proof -
  obtain d r where d: "ds = d # r" using ds(1) by (cases ds) auto
  with ds(2) have dd: "is_digit db d" by simp
  have "dropWhile (\<lambda>c. \<not> is_digit db c) (pre @ ds @ post) = dropWhile (\<lambda>c. \<not> is_digit db c) (ds @ post)"
    using pre by (intro dropWhile_append2) (simp add: list_all_iff)
  also have "\<dots> = ds @ post" using d dd by simp
  finally have 1: "dropWhile (\<lambda>c. \<not> is_digit db c) (pre @ ds @ post) = ds @ post" .
  have "takeWhile (is_digit db) (ds @ post) = ds @ takeWhile (is_digit db) post"
    using ds(2) by (intro takeWhile_append2) (simp add: list_all_iff)
  also have "\<dots> = ds" using post by (cases post) auto
  finally show ?thesis using 1 by (simp add: first_digits_def)
qed

lemma py_int_digits:
  "ds \<noteq> [] \<Longrightarrow> list_all (is_digit db) ds \<Longrightarrow> within_digit_limit db ds \<Longrightarrow>
   \<exists>n. py_int db ds = Some n"
  by (simp add: py_int_def)

lemma py_int_too_long: "\<not> within_digit_limit db ds \<Longrightarrow> py_int db ds = None"
  by (simp add: py_int_def)

lemma get_heading_level_latin:
  assumes "unicode_ok db"
    and "sn = pre @ ds @ nl" "starts_with sn (u ''Heading'')" "ds \<noteq> []"
    and "list_all (is_digit db) ds" "pre = [] \<or> \<not> is_digit db (last pre)" "nl = [] \<or> nl = [10]"
  shows "get_heading_level db \<lparr>p_style = Some sn, p_text = t, p_runs = rs\<rparr> = Inr (py_int db ds)"
proof -
  from trailing_digits_append[OF assms(1,4,5,6,7)] assms(2)
  have "trailing_digits db sn = ds" by simp
  with assms(3,4) show ?thesis by (simp add: get_heading_level_def Let_def)
qed

lemma get_heading_level_localized:
  assumes "sn = pre @ ds @ post"
    and "\<not> starts_with sn (u ''Heading'') \<or> trailing_digits db sn = []"
    and "contains sn thai_heading_word" "list_all (\<lambda>c. \<not> is_digit db c) pre" "ds \<noteq> []"
    and "list_all (is_digit db) ds" "post = [] \<or> \<not> is_digit db (hd post)"
  shows "get_heading_level db \<lparr>p_style = Some sn, p_text = t, p_runs = rs\<rparr> = Inr (py_int db ds)"
proof -
  from first_digits_append[OF assms(5,6,4,7)] assms(1)
  have "first_digits db sn = ds" by simp
  with assms(2,3,5) show ?thesis by (auto simp: get_heading_level_def Let_def)
qed

lemma digit_one: "is_digit basic_db 49"
  by (simp add: is_digit_def basic_db_def)

lemma long_run_digits: "list_all (is_digit basic_db) (replicate k 49)"
  using digit_one by (simp add: list_all_iff)

lemma long_run_limit: "\<not> within_digit_limit basic_db (replicate 4301 49)"
  by (simp add: within_digit_limit_def basic_db_def)

lemma long_style_heading: "starts_with (u ''Heading '' @ replicate k 49) (u ''Heading'')"
  by (simp add: starts_with_def u_def)

lemma heading_blank_last: "\<not> is_digit basic_db (last (u ''Heading ''))"
  by (simp add: u_def is_digit_def basic_db_def is_thai_digit_def)

text \<open>
  C5, as the code has it. The style name is looked at first. A name that starts with
  \<open>Heading\<close> and ends in a digit run (a final newline apart) gives the number that run
  reads as; failing that, a name that holds the localized heading word gives the
  number of its first digit run; in both cases whatever the text of the paragraph is,
  and in both cases only for a run that \<open>int\<close> converts: for a run beyond the digit
  limit of the interpreter the paragraph is no heading, and the text is not looked at
  either. The text heuristic decides exactly when the style name holds no such digit
  run, and when there is no style.
\<close>

theorem get_heading_level_style_first:
  assumes "unicode_ok db"
  shows "(\<forall>pre ds nl.
            sn = pre @ ds @ nl \<and> starts_with sn (u ''Heading'') \<and> ds \<noteq> [] \<and>
            list_all (is_digit db) ds \<and> (pre = [] \<or> \<not> is_digit db (last pre)) \<and>
            (nl = [] \<or> nl = [10]) \<longrightarrow>
            (within_digit_limit db ds \<longrightarrow>
               (\<exists>n. py_int db ds = Some n \<and>
                    get_heading_level db \<lparr>p_style = Some sn, p_text = t, p_runs = rs\<rparr> = Inr (Some n))) \<and>
            (\<not> within_digit_limit db ds \<longrightarrow>
               get_heading_level db \<lparr>p_style = Some sn, p_text = t, p_runs = rs\<rparr> = Inr None)) \<and>
         (\<forall>pre ds post.
            sn = pre @ ds @ post \<and>
            (\<not> starts_with sn (u ''Heading'') \<or> trailing_digits db sn = []) \<and>
            contains sn thai_heading_word \<and> list_all (\<lambda>c. \<not> is_digit db c) pre \<and> ds \<noteq> [] \<and>
            list_all (is_digit db) ds \<and> (post = [] \<or> \<not> is_digit db (hd post)) \<longrightarrow>
            (within_digit_limit db ds \<longrightarrow>
               (\<exists>n. py_int db ds = Some n \<and>
                    get_heading_level db \<lparr>p_style = Some sn, p_text = t, p_runs = rs\<rparr> = Inr (Some n))) \<and>
            (\<not> within_digit_limit db ds \<longrightarrow>
               get_heading_level db \<lparr>p_style = Some sn, p_text = t, p_runs = rs\<rparr> = Inr None)) \<and>
         ((\<not> starts_with sn (u ''Heading'') \<or> trailing_digits db sn = []) \<and>
          (\<not> contains sn thai_heading_word \<or> first_digits db sn = []) \<longrightarrow>
            get_heading_level db \<lparr>p_style = Some sn, p_text = t, p_runs = rs\<rparr> =
              heading_level_from_text db t) \<and>
         (\<not> ((\<not> starts_with sn (u ''Heading'') \<or> trailing_digits db sn = []) \<and>
              (\<not> contains sn thai_heading_word \<or> first_digits db sn = [])) \<longrightarrow>
            get_heading_level db \<lparr>p_style = Some sn, p_text = t, p_runs = rs\<rparr> =
              get_heading_level db \<lparr>p_style = Some sn, p_text = t', p_runs = rs'\<rparr>) \<and>
         get_heading_level db \<lparr>p_style = None, p_text = t, p_runs = rs\<rparr> =
           heading_level_from_text db t"
proof -
  let ?p = "\<lparr>p_style = Some sn, p_text = t, p_runs = rs\<rparr>"
  have a: "(within_digit_limit db ds \<longrightarrow>
              (\<exists>n. py_int db ds = Some n \<and> get_heading_level db ?p = Inr (Some n))) \<and>
           (\<not> within_digit_limit db ds \<longrightarrow> get_heading_level db ?p = Inr None)"
    if "sn = pre @ ds @ nl" "starts_with sn (u ''Heading'')" "ds \<noteq> []"
      "list_all (is_digit db) ds" "pre = [] \<or> \<not> is_digit db (last pre)" "nl = [] \<or> nl = [10]"
    for pre ds nl
    using get_heading_level_latin[OF assms that, of t rs] py_int_digits[OF that(3,4)]
      py_int_too_long[of db ds] by auto
  have b: "(within_digit_limit db ds \<longrightarrow>
              (\<exists>n. py_int db ds = Some n \<and> get_heading_level db ?p = Inr (Some n))) \<and>
           (\<not> within_digit_limit db ds \<longrightarrow> get_heading_level db ?p = Inr None)"
    if "sn = pre @ ds @ post" "\<not> starts_with sn (u ''Heading'') \<or> trailing_digits db sn = []"
      "contains sn thai_heading_word" "list_all (\<lambda>c. \<not> is_digit db c) pre" "ds \<noteq> []"
      "list_all (is_digit db) ds" "post = [] \<or> \<not> is_digit db (hd post)"
    for pre ds post
    using get_heading_level_localized[OF that, of t rs] py_int_digits[OF that(5,6)]
      py_int_too_long[of db ds] by auto
  have c: "(\<not> starts_with sn (u ''Heading'') \<or> trailing_digits db sn = []) \<and>
          (\<not> contains sn thai_heading_word \<or> first_digits db sn = []) \<longrightarrow>
            get_heading_level db ?p = heading_level_from_text db t"
    by (auto simp: get_heading_level_def Let_def)
  have d: "\<not> ((\<not> starts_with sn (u ''Heading'') \<or> trailing_digits db sn = []) \<and>
              (\<not> contains sn thai_heading_word \<or> first_digits db sn = [])) \<longrightarrow>
            get_heading_level db ?p =
              get_heading_level db \<lparr>p_style = Some sn, p_text = t', p_runs = rs'\<rparr>"
    by (auto simp: get_heading_level_def Let_def)
  have e: "get_heading_level db \<lparr>p_style = None, p_text = t, p_runs = rs\<rparr> =
           heading_level_from_text db t"
    by (simp add: get_heading_level_def Let_def trailing_digits_def first_digits_def starts_with_def u_def)
  from a b c d e show ?thesis by blast
qed

theorem get_heading_level_style_first_witness:
  "unicode_ok basic_db \<and>
   within_digit_limit basic_db (u ''2'') \<and>
   get_heading_level basic_db (style_par (u ''Heading 2'') ''1.1.1 Deep text'') = Inr (Some 2) \<and>
   heading_level_from_text basic_db (u ''1.1.1 Deep text'') = Inr (Some 3) \<and>
   \<not> within_digit_limit basic_db (replicate 4301 49) \<and>
   get_heading_level basic_db (style_par (u ''Heading '' @ replicate 4301 49) ''1.1 Intro'') = Inr None \<and>
   get_heading_level basic_db (style_par (thai_heading_word @ u '' 3'') ''Plain text'') = Inr (Some 3) \<and>
   get_heading_level basic_db (style_par (u ''Normal'') ''1.1 Intro'') = Inr (Some 2)"
proof -
  have i2: "py_int basic_db (u ''2'') = Some 2" and i3: "py_int basic_db (u ''3'') = Some 3"
    by (simp_all add: py_int_def within_digit_limit_def u_def is_digit_def basic_db_def)
  have w2: "within_digit_limit basic_db (u ''2'')" and w3: "within_digit_limit basic_db (u ''3'')"
    by (simp_all add: within_digit_limit_def u_def)
  have 1: "get_heading_level basic_db (style_par (u ''Heading 2'') ''1.1.1 Deep text'') = Inr (Some 2)"
  proof -
    have h: "u ''Heading 2'' = u ''Heading '' @ u ''2'' @ [] \<and> starts_with (u ''Heading 2'') (u ''Heading'') \<and>
          u ''2'' \<noteq> [] \<and> list_all (is_digit basic_db) (u ''2'') \<and>
          (u ''Heading '' = [] \<or> \<not> is_digit basic_db (last (u ''Heading ''))) \<and> ([] = [] \<or> [] = [10::nat])"
      by (simp add: u_def starts_with_def is_digit_def basic_db_def is_thai_digit_def)
    from get_heading_level_style_first[OF basic_db_ok, of "u ''Heading 2''"
        "u ''1.1.1 Deep text''" "[plain_run (u ''1.1.1 Deep text'')]"]
    have "\<forall>pre ds nl.
            u ''Heading 2'' = pre @ ds @ nl \<and> starts_with (u ''Heading 2'') (u ''Heading'') \<and> ds \<noteq> [] \<and>
            list_all (is_digit basic_db) ds \<and> (pre = [] \<or> \<not> is_digit basic_db (last pre)) \<and>
            (nl = [] \<or> nl = [10]) \<longrightarrow>
            (within_digit_limit basic_db ds \<longrightarrow>
               (\<exists>n. py_int basic_db ds = Some n \<and>
                 get_heading_level basic_db (style_par (u ''Heading 2'') ''1.1.1 Deep text'') = Inr (Some n))) \<and>
            (\<not> within_digit_limit basic_db ds \<longrightarrow>
               get_heading_level basic_db (style_par (u ''Heading 2'') ''1.1.1 Deep text'') = Inr None)"
      unfolding style_par_def by (rule conjunct1)
    from this[rule_format, OF h] w2 i2 show ?thesis by simp
  qed
  have 2: "heading_level_from_text basic_db (u ''1.1.1 Deep text'') = Inr (Some 3)"
    by (simp add: heading_eval string_eval)
  have 5: "get_heading_level basic_db (style_par (u ''Heading '' @ replicate 4301 49) ''1.1 Intro'') = Inr None"
  proof -
    let ?sn = "u ''Heading '' @ replicate 4301 49"
    have h: "?sn = u ''Heading '' @ replicate 4301 49 @ [] \<and> starts_with ?sn (u ''Heading'') \<and>
          replicate 4301 49 \<noteq> [] \<and> list_all (is_digit basic_db) (replicate 4301 49) \<and>
          (u ''Heading '' = [] \<or> \<not> is_digit basic_db (last (u ''Heading ''))) \<and> ([] = [] \<or> [] = [10::nat])"
      using long_run_digits[of 4301] long_style_heading[of 4301] heading_blank_last
      by (intro conjI) simp_all
    from get_heading_level_style_first[OF basic_db_ok, of ?sn
        "u ''1.1 Intro''" "[plain_run (u ''1.1 Intro'')]"]
    have "\<forall>pre ds nl.
            ?sn = pre @ ds @ nl \<and> starts_with ?sn (u ''Heading'') \<and> ds \<noteq> [] \<and>
            list_all (is_digit basic_db) ds \<and> (pre = [] \<or> \<not> is_digit basic_db (last pre)) \<and>
            (nl = [] \<or> nl = [10]) \<longrightarrow>
            (within_digit_limit basic_db ds \<longrightarrow>
               (\<exists>n. py_int basic_db ds = Some n \<and>
                 get_heading_level basic_db (style_par ?sn ''1.1 Intro'') = Inr (Some n))) \<and>
            (\<not> within_digit_limit basic_db ds \<longrightarrow>
               get_heading_level basic_db (style_par ?sn ''1.1 Intro'') = Inr None)"
      unfolding style_par_def by (rule conjunct1)
    from this[rule_format, OF h] long_run_limit show ?thesis by blast
  qed
  have 3: "get_heading_level basic_db (style_par (thai_heading_word @ u '' 3'') ''Plain text'') = Inr (Some 3)"
  proof -
    let ?sn = "thai_heading_word @ u '' 3''"
    have h: "?sn = (thai_heading_word @ u '' '') @ u ''3'' @ [] \<and>
          (\<not> starts_with ?sn (u ''Heading'') \<or> trailing_digits basic_db ?sn = []) \<and>
          contains ?sn thai_heading_word \<and>
          list_all (\<lambda>c. \<not> is_digit basic_db c) (thai_heading_word @ u '' '') \<and> u ''3'' \<noteq> [] \<and>
          list_all (is_digit basic_db) (u ''3'') \<and> ([] = [] \<or> \<not> is_digit basic_db (hd []))"
      by (simp add: u_def starts_with_def is_digit_def basic_db_def is_thai_digit_def
                    thai_heading_word_def)
    from get_heading_level_style_first[OF basic_db_ok, of ?sn
        "u ''Plain text''" "[plain_run (u ''Plain text'')]"]
    have "\<forall>pre ds post.
            ?sn = pre @ ds @ post \<and>
            (\<not> starts_with ?sn (u ''Heading'') \<or> trailing_digits basic_db ?sn = []) \<and>
            contains ?sn thai_heading_word \<and> list_all (\<lambda>c. \<not> is_digit basic_db c) pre \<and> ds \<noteq> [] \<and>
            list_all (is_digit basic_db) ds \<and> (post = [] \<or> \<not> is_digit basic_db (hd post)) \<longrightarrow>
            (within_digit_limit basic_db ds \<longrightarrow>
               (\<exists>n. py_int basic_db ds = Some n \<and>
                 get_heading_level basic_db (style_par ?sn ''Plain text'') = Inr (Some n))) \<and>
            (\<not> within_digit_limit basic_db ds \<longrightarrow>
               get_heading_level basic_db (style_par ?sn ''Plain text'') = Inr None)"
      unfolding style_par_def by (rule conjunct1[OF conjunct2])
    from this[rule_format, OF h] w3 i3 show ?thesis by simp
  qed
  have 4: "get_heading_level basic_db (style_par (u ''Normal'') ''1.1 Intro'') = Inr (Some 2)"
  proof -
    have h: "(\<not> starts_with (u ''Normal'') (u ''Heading'') \<or> trailing_digits basic_db (u ''Normal'') = []) \<and>
          (\<not> contains (u ''Normal'') thai_heading_word \<or> first_digits basic_db (u ''Normal'') = [])"
      by (simp add: u_def starts_with_def thai_heading_word_def)
    from get_heading_level_style_first[OF basic_db_ok, of "u ''Normal''" "u ''1.1 Intro''"
        "[plain_run (u ''1.1 Intro'')]"]
    have "(\<not> starts_with (u ''Normal'') (u ''Heading'') \<or> trailing_digits basic_db (u ''Normal'') = []) \<and>
          (\<not> contains (u ''Normal'') thai_heading_word \<or> first_digits basic_db (u ''Normal'') = []) \<longrightarrow>
          get_heading_level basic_db (style_par (u ''Normal'') ''1.1 Intro'') =
          heading_level_from_text basic_db (u ''1.1 Intro'')"
      unfolding style_par_def by (rule conjunct1[OF conjunct2[OF conjunct2]])
    from this[rule_format, OF h]
    have "get_heading_level basic_db (style_par (u ''Normal'') ''1.1 Intro'') =
          heading_level_from_text basic_db (u ''1.1 Intro'')" .
    also have "\<dots> = Inr (Some 2)" by (simp add: heading_eval string_eval)
    finally show ?thesis .
  qed
  from basic_db_ok w2 1 2 long_run_limit 5 3 4 show ?thesis by (intro conjI)
qed

text \<open>
  C5 as stated fails for a style name whose digit run is longer than the interpreter
  converts: \<open>int\<close> raises \<open>ValueError\<close>, the code catches it, and the paragraph is no
  heading, although its style name is \<open>Heading\<close> followed by digits and its text alone
  would make it a heading of level 2.
\<close>

theorem get_heading_level_style_first_counterexample:
  "p_style long_style_par = Some (u ''Heading '' @ replicate 4301 49) \<and>
   starts_with (u ''Heading '' @ replicate 4301 49) (u ''Heading'') \<and>
   list_all (is_digit basic_db) (replicate 4301 49) \<and>
   max_str_digits basic_db = 4300 \<and>
   get_heading_level basic_db long_style_par = Inr None \<and>
   heading_level_from_text basic_db (p_text long_style_par) = Inr (Some 2)"
proof -
  have 1: "p_style long_style_par = Some (u ''Heading '' @ replicate 4301 49)"
    by (simp add: long_style_par_def long_style_def)
  have p: "long_style_par = \<lparr>p_style = Some (u ''Heading '' @ replicate 4301 49),
             p_text = u ''1.1 Intro'', p_runs = [plain_run (u ''1.1 Intro'')]\<rparr>"
    by (simp add: long_style_par_def long_style_def)
  have 2: "max_str_digits basic_db = 4300" by (simp add: basic_db_def)
  have e: "u ''Heading '' @ replicate 4301 49 = u ''Heading '' @ replicate 4301 49 @ []" by simp
  have r: "replicate 4301 (49::nat) \<noteq> []" by simp
  have "get_heading_level basic_db long_style_par = Inr (py_int basic_db (replicate 4301 49))"
    unfolding p
    by (rule get_heading_level_latin[OF basic_db_ok e long_style_heading r long_run_digits])
       (simp_all add: heading_blank_last)
  then have 3: "get_heading_level basic_db long_style_par = Inr None"
    using py_int_too_long[OF long_run_limit] by simp
  have 4: "heading_level_from_text basic_db (p_text long_style_par) = Inr (Some 2)"
    by (simp add: long_style_par_def heading_eval string_eval)
  from 1 long_style_heading[of 4301] long_run_digits[of 4301] 2 3 4 show ?thesis by (intro conjI)
qed

text \<open>
  C4. The chapter keyword gives level 1 whatever digits follow, Thai digits count as
  digits, the two examples of the specification give 3 and 1, and a text without a
  number is no heading. The level of a numbered text is the number of digit runs of
  its whole first word, though: \<open>1.IPv6 addressing\<close> has the dotted numeric prefix
  \<open>1.\<close> of one component, and the level found is 2.
\<close>

theorem heading_level_from_text_first_word:
  "heading_level_from_text basic_db (chapter_marker @ u '' 1.2.3 Intro'') = Inr (Some 1) \<and>
   heading_level_from_text basic_db (u ''1.2.3 Something'') = Inr (Some 3) \<and>
   heading_level_from_text basic_db (u ''1 Something'') = Inr (Some 1) \<and>
   heading_level_from_text basic_db ([3665, 46, 3666] @ u '' Something'') = Inr (Some 2) \<and>
   heading_level_from_text basic_db (u ''Something'') = Inr None \<and>
   dotted_prefix_components basic_db (u ''1.IPv6 addressing'') = 1 \<and>
   heading_level_from_text basic_db (u ''1.IPv6 addressing'') = Inr (Some 2)"
  by (simp add: heading_eval string_eval dotted_prefix_components_def)

end
